theory Spec2Isabelle
  imports Complex_Main
begin

section \<open>JavaScript strings\<close>

text \<open>
  A JavaScript string is a sequence of UTF-16 code units. A code unit is modelled by its
  numeric value; \<open>str\<close> embeds an ASCII literal. Characters outside ASCII that occur in
  the literals of \<^verbatim>\<open>server.js\<close> (emoji, the signs for times and divided-by) are
  written as their code units.
\<close>

type_synonym jschar = nat
type_synonym jsstring = "jschar list"

definition str :: "string \<Rightarrow> jsstring" where
  "str s = map of_char s"

text \<open>The classes \<^verbatim>\<open>LineTerminator\<close> and \<^verbatim>\<open>WhiteSpace\<close> of ECMAScript; \<^verbatim>\<open>\s\<close>
  and \<^verbatim>\<open>String.prototype.trim\<close> use their union, \<^verbatim>\<open>.\<close> excludes the line terminators.\<close>

definition isLineTerminator :: "jschar \<Rightarrow> bool" where
  "isLineTerminator c = (c = 0x0A \<or> c = 0x0D \<or> c = 0x2028 \<or> c = 0x2029)"

definition isWhiteSpace :: "jschar \<Rightarrow> bool" where
  "isWhiteSpace c = (c = 0x09 \<or> c = 0x0B \<or> c = 0x0C \<or> c = 0x20 \<or> c = 0xA0 \<or> c = 0x1680
     \<or> (0x2000 \<le> c \<and> c \<le> 0x200A) \<or> c = 0x202F \<or> c = 0x205F \<or> c = 0x3000 \<or> c = 0xFEFF)"

definition isSpace :: "jschar \<Rightarrow> bool" where
  "isSpace c = (isWhiteSpace c \<or> isLineTerminator c)"

definition isDigit :: "jschar \<Rightarrow> bool" where
  "isDigit c = (0x30 \<le> c \<and> c \<le> 0x39)"

text \<open>
  \<^verbatim>\<open>String.prototype.toLowerCase\<close> replaces every code point by its lower-case mapping
  of the Unicode default case conversion and concatenates the images. The code units whose
  image bears on this program are written out: those of the Basic Latin block (\<^verbatim>\<open>A\<close> to
  \<^verbatim>\<open>Z\<close> move to \<^verbatim>\<open>a\<close> to \<^verbatim>\<open>z\<close>, the others stay), white space and line
  terminators (they have no case), and the two code points beyond ASCII whose lower-case
  form contains an ASCII character: the Kelvin sign U+212A, which becomes \<^verbatim>\<open>k\<close>, and
  U+0130, which becomes \<^verbatim>\<open>i\<close> followed by U+0307. The image of any other code unit, at
  its index in its string (the image of a capital sigma depends on its neighbours, and a
  surrogate pair is mapped as one code point), is read from the Unicode tables of the host,
  the parameter \<open>tbl\<close>.
\<close>

type_synonym caseTable = "jsstring \<Rightarrow> nat \<Rightarrow> jsstring"

definition lowerUnit :: "jschar \<Rightarrow> jschar" where
  "lowerUnit c = (if 0x41 \<le> c \<and> c \<le> 0x5A then c + 0x20 else c)"

definition lowerAt :: "caseTable \<Rightarrow> jsstring \<Rightarrow> nat \<Rightarrow> jschar \<Rightarrow> jsstring" where
  "lowerAt tbl s i c =
     (if c < 0x80 \<or> isSpace c then [lowerUnit c]
      else if c = 0x212A then [0x6B]
      else if c = 0x0130 then [0x69, 0x0307]
      else tbl s i)"

fun lowerFrom :: "caseTable \<Rightarrow> jsstring \<Rightarrow> nat \<Rightarrow> jsstring \<Rightarrow> jsstring" where
  "lowerFrom tbl s i [] = []"
| "lowerFrom tbl s i (c # cs) = lowerAt tbl s i c @ lowerFrom tbl s (Suc i) cs"

definition toLowerCase :: "caseTable \<Rightarrow> jsstring \<Rightarrow> jsstring" where
  "toLowerCase tbl s = lowerFrom tbl s 0 s"

definition trim :: "jsstring \<Rightarrow> jsstring" where
  "trim s = rev (dropWhile isSpace (rev (dropWhile isSpace s)))"

fun startsWith :: "jsstring \<Rightarrow> jsstring \<Rightarrow> bool" where
  "startsWith s [] = True"
| "startsWith [] (c # t) = False"
| "startsWith (d # s) (c # t) = (d = c \<and> startsWith s t)"

text \<open>\<^verbatim>\<open>s.includes(t)\<close>: \<open>t\<close> occurs in \<open>s\<close> as a contiguous run of code units.\<close>

fun includes_js :: "jsstring \<Rightarrow> jsstring \<Rightarrow> bool" where
  "includes_js [] t = (t = [])"
| "includes_js (c # s) t = (startsWith (c # s) t \<or> includes_js s t)"

text \<open>\<^verbatim>\<open>xs.slice(-n)\<close>: the last \<open>n\<close> elements, all of them when there are fewer.\<close>

definition sliceLast :: "nat \<Rightarrow> 'a list \<Rightarrow> 'a list" where
  "sliceLast n xs = drop (length xs - n) xs"

text \<open>\<^verbatim>\<open>xs[i]\<close>: \<^verbatim>\<open>undefined\<close> (here \<open>None\<close>) outside the array.\<close>

definition arrayGet :: "'a list \<Rightarrow> int \<Rightarrow> 'a option" where
  "arrayGet xs i = (if 0 \<le> i \<and> i < int (length xs) then Some (xs ! nat i) else None)"

text \<open>A value interpolated into a template literal; \<^verbatim>\<open>undefined\<close> prints as its name.\<close>

definition tmpl :: "jsstring option \<Rightarrow> jsstring" where
  "tmpl v = (case v of Some s \<Rightarrow> s | None \<Rightarrow> str ''undefined'')"

section \<open>Regular expressions\<close>

text \<open>
  The fragment of ECMAScript patterns that \<^verbatim>\<open>server.js\<close> uses, with the backtracking
  semantics of the language: a matcher returns every way of matching from a state, in the
  order in which backtracking tries them (alternatives left to right, quantifiers greedy).
  The first entry that lets the rest of the pattern succeed is the match.
\<close>

datatype regex =
    Emp
  | Chr jschar
  | Digit
  | Space
  | Dot
  | Bol
  | Eol
  | Seq regex regex
  | Alt regex regex
  | Star regex
  | Group nat regex

definition Plus :: "regex \<Rightarrow> regex" where
  "Plus r = Seq r (Star r)"

definition Opt :: "regex \<Rightarrow> regex" where
  "Opt r = Alt r Emp"

definition seqs :: "regex list \<Rightarrow> regex" where
  "seqs rs = foldr Seq rs Emp"

definition lit :: "string \<Rightarrow> regex" where
  "lit s = seqs (map (\<lambda>c. Chr (of_char c)) s)"

record mstate =
  pos :: nat
  rest :: jsstring
  caps :: "(nat \<times> jsstring) list"

text \<open>
  \<^verbatim>\<open>Canonicalize\<close> of the \<^verbatim>\<open>i\<close> flag (without \<^verbatim>\<open>u\<close>): upper-casing, where a code unit
  beyond ASCII never becomes an ASCII one. All pattern characters are ASCII, for which this
  is the comparison of the ASCII letters without case.
\<close>

definition canonicalize :: "jschar \<Rightarrow> jschar" where
  "canonicalize c = (if 0x61 \<le> c \<and> c \<le> 0x7A then c - 0x20 else c)"

definition chrEq :: "bool \<Rightarrow> jschar \<Rightarrow> jschar \<Rightarrow> bool" where
  "chrEq ic p c = (if ic then canonicalize p = canonicalize c else p = c)"

definition step1 :: "(jschar \<Rightarrow> bool) \<Rightarrow> mstate \<Rightarrow> mstate list" where
  "step1 P st = (case rest st of [] \<Rightarrow> []
      | c # cs \<Rightarrow> if P c then [st\<lparr>pos := Suc (pos st), rest := cs\<rparr>] else [])"

function (sequential) rmatch :: "bool \<Rightarrow> regex \<Rightarrow> mstate \<Rightarrow> mstate list" where
  "rmatch ic Emp st = [st]"
| "rmatch ic (Chr p) st = step1 (chrEq ic p) st"
| "rmatch ic Digit st = step1 isDigit st"
| "rmatch ic Space st = step1 isSpace st"
| "rmatch ic Dot st = step1 (\<lambda>c. \<not> isLineTerminator c) st"
| "rmatch ic Bol st = (if pos st = 0 then [st] else [])"
| "rmatch ic Eol st = (if rest st = [] then [st] else [])"
| "rmatch ic (Seq r1 r2) st = concat (map (rmatch ic r2) (rmatch ic r1 st))"
| "rmatch ic (Alt r1 r2) st = rmatch ic r1 st @ rmatch ic r2 st"
| "rmatch ic (Star r) st =
     concat (map (rmatch ic (Star r))
       (filter (\<lambda>st'. length (rest st') < length (rest st)) (rmatch ic r st))) @ [st]"
| "rmatch ic (Group n r) st =
     map (\<lambda>st'. st'\<lparr>caps := (n, take (pos st' - pos st) (rest st)) # caps st'\<rparr>) (rmatch ic r st)"
  by pat_completeness auto
termination
  by (relation "inv_image (less_than <*lex*> less_than) (\<lambda>(ic, r, st). (size r, length (rest st)))")
     auto

declare rmatch.simps(10) [simp del]

text \<open>The leftmost start index at which the pattern matches, with the first match there.\<close>

fun search :: "bool \<Rightarrow> regex \<Rightarrow> nat \<Rightarrow> jsstring \<Rightarrow> (nat \<times> mstate) option" where
  "search ic r i [] =
     (case rmatch ic r \<lparr>pos = i, rest = [], caps = []\<rparr> of m # _ \<Rightarrow> Some (i, m) | [] \<Rightarrow> None)"
| "search ic r i (c # s) =
     (case rmatch ic r \<lparr>pos = i, rest = c # s, caps = []\<rparr> of
        m # _ \<Rightarrow> Some (i, m)
      | [] \<Rightarrow> search ic r (Suc i) s)"

text \<open>\<^verbatim>\<open>re.test(s)\<close>.\<close>

definition regex_test :: "bool \<Rightarrow> regex \<Rightarrow> jsstring \<Rightarrow> bool" where
  "regex_test ic r s = (search ic r 0 s \<noteq> None)"

text \<open>\<^verbatim>\<open>s.match(re)\<close> for a pattern with \<open>n\<close> groups and no \<^verbatim>\<open>g\<close> flag: \<^verbatim>\<open>null\<close>
  (\<open>None\<close>), or the array of the matched text and the \<open>n\<close> captures.\<close>

fun capsUpTo :: "(nat \<times> jsstring) list \<Rightarrow> nat \<Rightarrow> jsstring option list" where
  "capsUpTo cs 0 = []"
| "capsUpTo cs (Suc n) = capsUpTo cs n @ [map_of cs (Suc n)]"

definition regex_match :: "bool \<Rightarrow> regex \<Rightarrow> nat \<Rightarrow> jsstring \<Rightarrow> jsstring option list option" where
  "regex_match ic r n s =
     (case search ic r 0 s of
        None \<Rightarrow> None
      | Some (i, m) \<Rightarrow> Some (Some (take (pos m - i) (drop i s)) # capsUpTo (caps m) n))"

subsection \<open>The patterns of the rule chain\<close>

definition re_two_plus_two :: regex where
  "re_two_plus_two = seqs [Bol,
     Opt (Group 1 (seqs [lit ''what'', Plus Space, lit ''is'', Plus Space])),
     lit ''2'', Star Space, lit ''+'', Star Space, lit ''2'',
     Opt (Group 2 (seqs [Star Space, lit ''='', Star Space])), Eol]"

definition re_time :: regex where
  "re_time = Alt (seqs [lit ''what'', Star Dot, lit ''time'']) (lit ''current time'')"

definition re_date :: regex where
  "re_date = Alt (seqs [lit ''what'', Star Dot, lit ''date''])
              (Alt (seqs [lit ''today'', Star Dot, lit ''date'']) (lit ''current date''))"

definition re_arith_test :: "string \<Rightarrow> regex" where
  "re_arith_test opr = seqs [Plus Digit, Star Space, lit opr, Star Space, Plus Digit]"

definition re_arith :: "string \<Rightarrow> regex" where
  "re_arith opr = seqs [Group 1 (Plus Digit), Star Space, lit opr, Star Space, Group 2 (Plus Digit)]"

definition re_who :: regex where
  "re_who = seqs [lit ''who'', Star Dot, lit ''are'', Star Dot, lit ''you'']"

definition re_how_work :: regex where
  "re_how_work = seqs [lit ''how'', Star Dot, lit ''work'']"

definition re_thank :: regex where
  "re_thank = Alt (lit ''thank'') (lit ''thanks'')"

definition re_suhaira :: regex where
  "re_suhaira = seqs [Bol, lit ''i'', Star Space, lit ''am'', Star Space, lit ''suhaira'', Eol]"

section \<open>Numbers\<close>

text \<open>
  \<^verbatim>\<open>parseInt\<close> on the text it receives here, a capture of \<^verbatim>\<open>(\d+)\<close> or the name of
  \<^verbatim>\<open>undefined\<close>: the value of the leading decimal digits, \<^verbatim>\<open>NaN\<close> (\<open>None\<close>) when
  there is none. The value is kept as the exact integer; \<open>arithString\<close> decides whether
  double precision holds it.
\<close>

definition parseInt :: "jsstring \<Rightarrow> nat option" where
  "parseInt s =
     (let ds = takeWhile isDigit s
      in if ds = [] then None else Some (foldl (\<lambda>acc c. 10 * acc + (c - 0x30)) 0 ds))"

function decimal :: "nat \<Rightarrow> jsstring" where
  "decimal n = (if n < 10 then [0x30 + n] else decimal (n div 10) @ [0x30 + n mod 10])"
  by pat_completeness auto
termination
  by (relation "measure id") auto

declare decimal.simps [simp del]

definition MAX_SAFE_INTEGER :: nat where
  "MAX_SAFE_INTEGER = 2 ^ 53 - 1"

datatype arith = Add | Sub | Mul | Div

text \<open>
  The text of \<^verbatim>\<open>parseInt(a) op parseInt(b)\<close> in a template literal. Where both operands
  and the exact result are integers up to \<^verbatim>\<open>Number.MAX_SAFE_INTEGER\<close>, double-precision
  arithmetic is exact and the number prints in decimal. Division by zero gives
  \<^verbatim>\<open>NaN\<close> for a zero dividend and \<^verbatim>\<open>Infinity\<close> otherwise, and \<^verbatim>\<open>NaN\<close> operands give
  \<^verbatim>\<open>NaN\<close>. Every other case (rounding beyond 53 bits, a quotient with a fraction) is left
  to the parameter \<open>fp\<close>, the floating-point arithmetic and number printing of the host.
\<close>

fun arithString :: "(arith \<Rightarrow> nat \<Rightarrow> nat \<Rightarrow> jsstring) \<Rightarrow> arith \<Rightarrow> nat option \<Rightarrow> nat option \<Rightarrow> jsstring" where
  "arithString fp Add (Some a) (Some b) =
     (if a \<le> MAX_SAFE_INTEGER \<and> b \<le> MAX_SAFE_INTEGER \<and> a + b \<le> MAX_SAFE_INTEGER
      then decimal (a + b) else fp Add a b)"
| "arithString fp Sub (Some a) (Some b) =
     (if a \<le> MAX_SAFE_INTEGER \<and> b \<le> MAX_SAFE_INTEGER
      then (if b \<le> a then decimal (a - b) else str ''-'' @ decimal (b - a))
      else fp Sub a b)"
| "arithString fp Mul (Some a) (Some b) =
     (if a \<le> MAX_SAFE_INTEGER \<and> b \<le> MAX_SAFE_INTEGER \<and> a * b \<le> MAX_SAFE_INTEGER
      then decimal (a * b) else fp Mul a b)"
| "arithString fp Div (Some a) (Some b) =
     (if b = 0 then (if a = 0 then str ''NaN'' else str ''Infinity'')
      else if a \<le> MAX_SAFE_INTEGER \<and> b \<le> MAX_SAFE_INTEGER \<and> b dvd a
      then decimal (a div b) else fp Div a b)"
| "arithString fp opr a b = str ''NaN''"

section \<open>Fallback replies\<close>

definition fallbackResponses :: "jsstring list" where
  "fallbackResponses = [
     [0xD83E, 0xDD14] @ str '' That'' @ [0x0027] @ str ''s interesting! Can you tell me more about that?'',
     [0xD83D, 0xDC4D] @ str '' I understand. What would you like to know?'',
     [0xD83D, 0xDCAF] @ str '' That'' @ [0x0027] @ str ''s a good point. How can I help you further?'',
     [0xD83D, 0xDC40] @ str '' I see. What else would you like to discuss?'',
     [0xD83D, 0xDE4F] @ str '' Thanks for sharing that with me. What'' @ [0x0027] @ str ''s on your mind?'',
     [0xD83D, 0xDE0A] @ str '' I appreciate you telling me that. How can I assist you?'',
     [0x2705] @ str '' That makes sense. What would you like to explore next?'',
     [0xD83D, 0xDC42] @ str '' I hear you. Is there anything specific I can help with?'']"

definition greetingReply :: jsstring where
  "greetingReply = [0xD83D, 0xDC4B] @ str '' Hello! Nice to meet you. How can I help you today?''"

definition howAreYouReply :: jsstring where
  "howAreYouReply = [0xD83D, 0xDE0A] @ str '' I'' @ [0x0027]
     @ str ''m doing well, thank you for asking! How are you doing?''"

definition nameReply :: jsstring where
  "nameReply = [0xD83E, 0xDD16] @ str '' I'' @ [0x0027]
     @ str ''m Yako, an AI assistant here to help you. What'' @ [0x0027] @ str ''s your name?''"

definition helpReply :: jsstring where
  "helpReply = [0xD83D, 0xDE4C] @ str '' I'' @ [0x0027]
     @ str ''m here to help! What would you like assistance with?''"

definition byeReply :: jsstring where
  "byeReply = [0xD83D, 0xDC4B] @ str '' Goodbye! It was nice chatting with you. Have a great day!''"

text \<open>
  \<^verbatim>\<open>getSmartFallback\<close>. The argument \<open>rnd\<close> is the value of \<^verbatim>\<open>Math.random()\<close>; the
  product with the pool's length (a power of two) and its floor are exact. The argument
  \<open>tbl\<close> is the case table of the host.
\<close>

definition getSmartFallback :: "caseTable \<Rightarrow> real \<Rightarrow> jsstring \<Rightarrow> jsstring option" where
  "getSmartFallback tbl rnd message =
     (let lowerMessage = toLowerCase tbl message in
      if includes_js lowerMessage (str ''hello'') \<or> includes_js lowerMessage (str ''hi'')
        then Some greetingReply
      else if includes_js lowerMessage (str ''how are you'') then Some howAreYouReply
      else if includes_js lowerMessage (str ''what'') \<and> includes_js lowerMessage (str ''name'')
        then Some nameReply
      else if includes_js lowerMessage (str ''help'') then Some helpReply
      else if includes_js lowerMessage (str ''bye'') \<or> includes_js lowerMessage (str ''goodbye'')
        then Some byeReply
      else arrayGet fallbackResponses \<lfloor>rnd * real (length fallbackResponses)\<rfloor>)"

section \<open>Knowledge base and retrieval\<close>

record knowledgeEntry =
  question :: jsstring
  answer :: jsstring

text \<open>Loading at start-up: a file that cannot be read or parsed (\<open>None\<close>) leaves the
  knowledge base empty.\<close>

definition loadKnowledgeBase :: "knowledgeEntry list option \<Rightarrow> knowledgeEntry list" where
  "loadKnowledgeBase parsed = (case parsed of Some entries \<Rightarrow> entries | None \<Rightarrow> [])"

record scored =
  idx :: nat
  score :: real

text \<open>
  \<^verbatim>\<open>Array.prototype.sort\<close> with a comparator: a stable sort; an element stays in front of
  the later ones that the comparator does not put before it.
\<close>

fun insertSorted :: "('a \<Rightarrow> 'a \<Rightarrow> real) \<Rightarrow> 'a \<Rightarrow> 'a list \<Rightarrow> 'a list" where
  "insertSorted cmp x [] = [x]"
| "insertSorted cmp x (y # ys) = (if cmp x y \<le> 0 then x # y # ys else y # insertSorted cmp x ys)"

definition js_sort :: "('a \<Rightarrow> 'a \<Rightarrow> real) \<Rightarrow> 'a list \<Rightarrow> 'a list" where
  "js_sort cmp xs = foldr (insertSorted cmp) xs []"

text \<open>\<^verbatim>\<open>xs.slice(0, k)\<close>; a negative \<open>k\<close> counts from the end.\<close>

definition slice0 :: "int \<Rightarrow> 'a list \<Rightarrow> 'a list" where
  "slice0 k xs = (if k < 0 then take (nat (int (length xs) + k)) xs else take (nat k) xs)"

text \<open>
  \<^verbatim>\<open>retrieveRelevantContext\<close>. The index is built by the library \<^verbatim>\<open>natural\<close> from one
  document per entry; \<open>tfidfs query i\<close> is the measure the library reports for document
  \<open>i\<close>.
\<close>

definition retrieveRelevantContext ::
  "knowledgeEntry list \<Rightarrow> (jsstring \<Rightarrow> nat \<Rightarrow> real) \<Rightarrow> jsstring \<Rightarrow> int \<Rightarrow> jsstring list" where
  "retrieveRelevantContext knowledgeBase tfidfs query topK =
     (if length knowledgeBase = 0 then []
      else
        let scores = map (\<lambda>i. \<lparr>idx = i, score = tfidfs query i\<rparr>) [0..<length knowledgeBase];
            sorted = js_sort (\<lambda>a b. score b - score a) scores;
            top = filter (\<lambda>s. score s > 0) (slice0 topK sorted)
        in map (\<lambda>s. answer (knowledgeBase ! idx s)) top)"

section \<open>The chat endpoint\<close>

datatype role = System | User | Assistant

record chatMessage =
  role :: role
  content :: "jsstring option"

text \<open>The values a JSON body can give to \<^verbatim>\<open>message\<close>; arrays and objects are \<open>JObject\<close>.\<close>

datatype jsvalue = JUndefined | JNull | JBool bool | JNum real | JStr jsstring | JObject

fun truthy :: "jsvalue \<Rightarrow> bool" where
  "truthy JUndefined = False"
| "truthy JNull = False"
| "truthy (JBool b) = b"
| "truthy (JNum x) = (x \<noteq> 0)"
| "truthy (JStr s) = (s \<noteq> [])"
| "truthy JObject = True"

record request =
  sessionHeader :: "jsstring option"
  bodyMessage :: jsvalue

datatype response =
    Json200 "jsstring option"
  | Json400 jsstring
  | Json500 jsstring jsstring

record groqRequest =
  model :: jsstring
  messages :: "chatMessage list"
  max_tokens :: nat
  temperature :: real

text \<open>
  What the provider's answer lets the handler see: the body of a response is not JSON
  (\<open>Unparseable\<close>), the test for a first choice with a message is false (\<open>NoChoice\<close>),
  reading the choice or trimming its content raises a \<^verbatim>\<open>TypeError\<close> (\<open>BadAccess\<close>), or
  the content of the first choice is a string.
\<close>

datatype groqData = Unparseable | NoChoice | BadAccess | ChoiceContent jsstring

datatype groqOutcome = FetchRejected | HttpResponse nat groqData

datatype thrown = FetchError | JsonError | TypeError | InvalidFormat | AuthFailed | ApiError nat

text \<open>What a request reads from outside the process: the clock, the random draw, the
  answer of the provider, and the floating-point arithmetic and the Unicode case tables of
  the host.\<close>

record world =
  localeTime :: jsstring
  localeDate :: jsstring
  mathRandom :: real
  fetchGroq :: "groqRequest \<Rightarrow> groqOutcome"
  fpArith :: "arith \<Rightarrow> nat \<Rightarrow> nat \<Rightarrow> jsstring"
  lowerTable :: caseTable

record config =
  GROQ_API_KEY :: "jsstring option"
  SYSTEM_MESSAGE :: jsstring
  knowledgeBase :: "knowledgeEntry list"
  tfidfs :: "jsstring \<Rightarrow> nat \<Rightarrow> real"

type_synonym conversationHistory = "jsstring \<rightharpoonup> chatMessage list"

definition keyConfigured :: "config \<Rightarrow> bool" where
  "keyConfigured cfg = (case GROQ_API_KEY cfg of Some k \<Rightarrow> k \<noteq> [] | None \<Rightarrow> False)"

definition joinLines :: "jsstring list \<Rightarrow> jsstring" where
  "joinLines xs = (case xs of [] \<Rightarrow> [] | y # ys \<Rightarrow> foldl (\<lambda>acc z. acc @ [0x0A] @ z) y ys)"

text \<open>One of the four arithmetic branches: the pattern with groups is matched again and
  the reply is put together from the two captures.\<close>

definition arithReply ::
  "world \<Rightarrow> string \<Rightarrow> jsstring \<Rightarrow> arith \<Rightarrow> jsstring \<Rightarrow> jsstring option" where
  "arithReply w opr sign a lowerMessage =
     (case regex_match False (re_arith opr) 2 lowerMessage of
        Some numbers \<Rightarrow>
          if length numbers \<ge> 3 then
            Some (tmpl (numbers ! 1) @ sign @ tmpl (numbers ! 2) @ str '' = ''
                  @ arithString (fpArith w) a (parseInt (tmpl (numbers ! 1)))
                      (parseInt (tmpl (numbers ! 2))))
          else None
      | None \<Rightarrow> None)"

definition suhairaReply :: jsstring where
  "suhairaReply =
     [0x2764, 0xFE0F, 0xD83D, 0xDC96, 0xD83D, 0xDC99, 0xD83D, 0xDC9A, 0xD83D, 0xDC9B, 0xD83D,
      0xDC9C, 0xD83E, 0xDDE1]
     @ str '' OMG! We have the most gorgeous lady in the world talking to us today! ''
     @ [0xD83D, 0xDC96, 0x2764, 0xFE0F, 0xD83D, 0xDC99, 0xD83D, 0xDC9A, 0xD83D, 0xDC9B, 0xD83D,
        0xDC9C, 0xD83E, 0xDDE1]
     @ str '' How are you doing Cutie Pie? '' @ [0xD83E, 0xDDF8, 0xD83C, 0xDF80]
     @ str '' You are Yako'' @ [0x0027] @ str ''s Favorite User ''
     @ [0xD83D, 0xDC96, 0x2764, 0xFE0F, 0xD83D, 0xDC99, 0xD83D, 0xDC9A, 0xD83D, 0xDC9B, 0xD83D,
        0xDC9C, 0xD83E, 0xDDE1]
     @ str '' Talha Sent Flowers For You ''
     @ [0xD83E, 0xDEB7, 0xD83C, 0xDF37, 0xD83C, 0xDF3C, 0xD83E, 0xDD8B, 0x2728, 0xD83C, 0xDF38,
        0xD83C, 0xDF3A, 0xD83E, 0xDDA9]"

definition whoReply :: jsstring where
  "whoReply = [0xD83E, 0xDD16] @ str '' I'' @ [0x0027]
     @ str ''m Yako, an AI assistant designed to help answer your questions and have conversations.''"

definition howWorkReply :: jsstring where
  "howWorkReply = [0xD83D, 0xDCA1]
     @ str '' I work by using advanced natural language processing to understand your questions and provide helpful responses.''"

definition thankReply :: jsstring where
  "thankReply = [0xD83D, 0xDE0A] @ str '' You'' @ [0x0027] @ str ''re welcome! I''
     @ [0x0027] @ str ''m happy to help.''"

text \<open>The request body for the provider: the system instruction, the retrieved context
  when there is one, and the last ten turns of the history (the current user turn is
  already its last).\<close>

definition groqRequestBody :: "config \<Rightarrow> jsstring \<Rightarrow> chatMessage list \<Rightarrow> groqRequest" where
  "groqRequestBody cfg message history =
     (let ragContexts = retrieveRelevantContext (knowledgeBase cfg) (tfidfs cfg) message 1;
          contextString =
            (if length ragContexts > 0 then str ''Relevant info: '' @ joinLines ragContexts
             else []);
          msgs = [\<lparr>role = System, content = Some (SYSTEM_MESSAGE cfg)\<rparr>]
            @ (if contextString \<noteq> [] then [\<lparr>role = System, content = Some contextString\<rparr>]
               else [])
            @ sliceLast 10 history
      in \<lparr>model = str ''llama-3.3-70b-versatile'', messages = msgs,
           max_tokens = 500, temperature = 0.7\<rparr>)"

text \<open>The branch that asks the provider. The result is the reply or the exception raised,
  with the request that was sent.\<close>

definition callGroq ::
  "config \<Rightarrow> world \<Rightarrow> jsstring \<Rightarrow> chatMessage list
    \<Rightarrow> (thrown + jsstring option) \<times> groqRequest list" where
  "callGroq cfg w message history =
     (let requestBody = groqRequestBody cfg message history
      in (case fetchGroq w requestBody of
            FetchRejected \<Rightarrow> Inl FetchError
          | HttpResponse status data \<Rightarrow>
              if 200 \<le> status \<and> status \<le> 299 then
                (case data of
                   Unparseable \<Rightarrow> Inl JsonError
                 | NoChoice \<Rightarrow> Inl InvalidFormat
                 | BadAccess \<Rightarrow> Inl TypeError
                 | ChoiceContent c \<Rightarrow> Inr (Some (trim c)))
              else if status = 401 then Inl AuthFailed
              else Inl (ApiError status),
          [requestBody]))"

text \<open>The body of the inner \<^verbatim>\<open>try\<close>: the chain of rules, then the provider or the
  fallback. \<open>Inr None\<close> is a reply left \<^verbatim>\<open>undefined\<close>.\<close>

definition generateResponse ::
  "config \<Rightarrow> world \<Rightarrow> jsstring \<Rightarrow> chatMessage list
    \<Rightarrow> (thrown + jsstring option) \<times> groqRequest list" where
  "generateResponse cfg w message history =
     (let lowerMessage = toLowerCase (lowerTable w) message in
      if regex_test True re_two_plus_two lowerMessage then (Inr (Some (str ''2 + 2 = 4'')), [])
      else if regex_test True re_time lowerMessage
        then (Inr (Some (str ''The current time is '' @ localeTime w @ str ''.'')), [])
      else if regex_test True re_date lowerMessage
        then (Inr (Some (str ''Today'' @ [0x0027] @ str ''s date is '' @ localeDate w @ str ''.'')), [])
      else if regex_test False (re_arith_test ''+'') lowerMessage
        then (Inr (arithReply w ''+'' (str '' + '') Add lowerMessage), [])
      else if regex_test False (re_arith_test ''-'') lowerMessage
        then (Inr (arithReply w ''-'' (str '' - '') Sub lowerMessage), [])
      else if regex_test False (re_arith_test ''*'') lowerMessage
        then (Inr (arithReply w ''*'' (str '' '' @ [0x00D7] @ str '' '') Mul lowerMessage), [])
      else if regex_test False (re_arith_test ''/'') lowerMessage
        then (Inr (arithReply w ''/'' (str '' '' @ [0x00F7] @ str '' '') Div lowerMessage), [])
      else if regex_test True re_who lowerMessage then (Inr (Some whoReply), [])
      else if regex_test True re_how_work lowerMessage then (Inr (Some howWorkReply), [])
      else if regex_test True re_thank lowerMessage then (Inr (Some thankReply), [])
      else if regex_test True re_suhaira (trim message) then (Inr (Some suhairaReply), [])
      else if keyConfigured cfg then callGroq cfg w message history
      else (Inr (getSmartFallback (lowerTable w) (mathRandom w) message), []))"

text \<open>Some branch of the rule chain takes the message.\<close>

definition ruleMatches :: "caseTable \<Rightarrow> jsstring \<Rightarrow> bool" where
  "ruleMatches tbl message =
     (let lowerMessage = toLowerCase tbl message in
      regex_test True re_two_plus_two lowerMessage
      \<or> regex_test True re_time lowerMessage
      \<or> regex_test True re_date lowerMessage
      \<or> regex_test False (re_arith_test ''+'') lowerMessage
      \<or> regex_test False (re_arith_test ''-'') lowerMessage
      \<or> regex_test False (re_arith_test ''*'') lowerMessage
      \<or> regex_test False (re_arith_test ''/'') lowerMessage
      \<or> regex_test True re_who lowerMessage
      \<or> regex_test True re_how_work lowerMessage
      \<or> regex_test True re_thank lowerMessage
      \<or> regex_test True re_suhaira (trim message))"

text \<open>The provider call does not produce a reply: the request is rejected, the status is
  not a success, or the body has no usable first choice.\<close>

fun providerFailed :: "groqOutcome \<Rightarrow> bool" where
  "providerFailed FetchRejected = True"
| "providerFailed (HttpResponse status (ChoiceContent c)) = (\<not> (200 \<le> status \<and> status \<le> 299))"
| "providerFailed (HttpResponse status data) = True"

text \<open>\<^verbatim>\<open>req.headers['x-session-id'] || 'default'\<close>: a header that is absent or empty
  gives the default session.\<close>

definition sessionIdOf :: "jsstring option \<Rightarrow> jsstring" where
  "sessionIdOf header =
     (case header of Some h \<Rightarrow> if h = [] then str ''default'' else h | None \<Rightarrow> str ''default'')"

record outcome =
  historyAfter :: conversationHistory
  sent :: response
  outbound :: "groqRequest list"

text \<open>
  The handler of \<^verbatim>\<open>POST /api/chat\<close>, run without interleaving. The user turn is pushed
  onto the stored array itself; nothing between that push and the final \<^verbatim>\<open>set\<close> can
  leave the handler, so the store changes only when the request completes.
\<close>

definition chatHandler :: "config \<Rightarrow> world \<Rightarrow> conversationHistory \<Rightarrow> request \<Rightarrow> outcome" where
  "chatHandler cfg w store req =
     (let message = bodyMessage req in
      if \<not> truthy message
        then \<lparr>historyAfter = store, sent = Json400 (str ''Message is required''), outbound = []\<rparr>
      else case message of
        JStr m \<Rightarrow>
          if trim m = []
            then \<lparr>historyAfter = store, sent = Json400 (str ''Message is required''),
                   outbound = []\<rparr>
          else
            let sessionId = sessionIdOf (sessionHeader req);
                history = (case store sessionId of Some h \<Rightarrow> h | None \<Rightarrow> []);
                history1 = history @ [\<lparr>role = User, content = Some m\<rparr>];
                (result, calls) = generateResponse cfg w m history1;
                botResponse = (case result of
                                 Inr b \<Rightarrow> b
                               | Inl e \<Rightarrow> getSmartFallback (lowerTable w) (mathRandom w) m);
                history2 = history1 @ [\<lparr>role = Assistant, content = botResponse\<rparr>];
                history3 = (if length history2 > 20 then sliceLast 20 history2 else history2)
            in \<lparr>historyAfter = store(sessionId \<mapsto> history3), sent = Json200 botResponse,
                 outbound = calls\<rparr>
      | _ \<Rightarrow> \<lparr>historyAfter = store,
               sent = Json500 (str ''Sorry, I encountered an error. Please try again.'')
                        (str ''message.trim is not a function''),
               outbound = []\<rparr>)"

text \<open>\<^verbatim>\<open>GET /api/history\<close>.\<close>

definition getHistory :: "conversationHistory \<Rightarrow> jsstring option \<Rightarrow> chatMessage list" where
  "getHistory store header =
     (let sessionId = sessionIdOf header
      in case store sessionId of Some h \<Rightarrow> h | None \<Rightarrow> [])"

text \<open>Requests served one after the other, each with what it reads from outside, starting
  from a store.\<close>

fun serve :: "config \<Rightarrow> conversationHistory \<Rightarrow> (world \<times> request) list \<Rightarrow> conversationHistory" where
  "serve cfg store [] = store"
| "serve cfg store ((w, req) # reqs) = serve cfg (historyAfter (chatHandler cfg w store req)) reqs"


section \<open>Example inputs\<close>

definition exampleConfig :: config where
  "exampleConfig = \<lparr>GROQ_API_KEY = None, SYSTEM_MESSAGE = str ''You are Yako.'',
     knowledgeBase = [], tfidfs = (\<lambda>q i. 0)\<rparr>"

text \<open>In the example world the provider cannot be reached, and the case table leaves every
  code unit that is looked up in it unchanged.\<close>

definition exampleWorld :: world where
  "exampleWorld = \<lparr>localeTime = str ''10:15:00 AM'', localeDate = str ''11/2/2026'',
     mathRandom = 1 / 2, fetchGroq = (\<lambda>q. FetchRejected), fpArith = (\<lambda>opr a b. str ''?''),
     lowerTable = (\<lambda>s i. [s ! i])\<rparr>"

definition exampleTurns :: "nat \<Rightarrow> chatMessage list" where
  "exampleTurns n = concat (replicate n
     [\<lparr>role = User, content = Some (str ''2+2'')\<rparr>,
      \<lparr>role = Assistant, content = Some (str ''2 + 2 = 4'')\<rparr>])"

definition exampleEntries :: "knowledgeEntry list" where
  "exampleEntries =
     [\<lparr>question = str ''What is Yako?'', answer = str ''Yako is a chatbot.''\<rparr>,
      \<lparr>question = str ''Who made Yako?'', answer = str ''A student.''\<rparr>,
      \<lparr>question = str ''Which model?'', answer = str ''Llama 3.''\<rparr>,
      \<lparr>question = str ''Which port?'', answer = str ''3002.''\<rparr>]"

definition exampleMeasure :: "jsstring \<Rightarrow> nat \<Rightarrow> real" where
  "exampleMeasure q i = (if i = 0 then 0 else if i = 1 then 1 / 2 else if i = 2 then 2 else 1 / 2)"


section \<open>Notions used in the proofs\<close>

text \<open>A history made of pairs of a user turn and an assistant turn.\<close>

fun alternates :: "chatMessage list \<Rightarrow> bool" where
  "alternates [] = True"
| "alternates [x] = False"
| "alternates (u # a # xs) = (role u = User \<and> role a = Assistant \<and> alternates xs)"


definition paired :: "conversationHistory \<Rightarrow> bool" where
  "paired store = (\<forall>sid h. store sid = Some h \<longrightarrow> length h \<le> 20 \<and> alternates h)"


text \<open>The order of the retrieval result: higher score first, equal scores in the order of
  the knowledge base.\<close>

definition ranks :: "scored \<Rightarrow> scored \<Rightarrow> bool" where
  "ranks a b = (score a > score b \<or> (score a = score b \<and> idx a < idx b))"


text \<open>What the matches of a pattern can consume and set, the pattern without its groups,
  and an atom that every match of a pattern has to consume.\<close>

fun mayConsume :: "bool \<Rightarrow> regex \<Rightarrow> jschar \<Rightarrow> bool" where
  "mayConsume ic (Chr p) c = chrEq ic p c"
| "mayConsume ic Digit c = isDigit c"
| "mayConsume ic Space c = isSpace c"
| "mayConsume ic Dot c = (\<not> isLineTerminator c)"
| "mayConsume ic (Seq a b) c = (mayConsume ic a c \<or> mayConsume ic b c)"
| "mayConsume ic (Alt a b) c = (mayConsume ic a c \<or> mayConsume ic b c)"
| "mayConsume ic (Star r) c = mayConsume ic r c"
| "mayConsume ic (Group n r) c = mayConsume ic r c"
| "mayConsume ic r c = False"

fun groups :: "regex \<Rightarrow> nat set" where
  "groups (Seq a b) = groups a \<union> groups b"
| "groups (Alt a b) = groups a \<union> groups b"
| "groups (Star r) = groups r"
| "groups (Group n r) = insert n (groups r)"
| "groups r = {}"

fun erase :: "regex \<Rightarrow> regex" where
  "erase (Seq a b) = Seq (erase a) (erase b)"
| "erase (Alt a b) = Alt (erase a) (erase b)"
| "erase (Star r) = Star (erase r)"
| "erase (Group n r) = erase r"
| "erase r = r"

fun needs :: "regex \<Rightarrow> regex \<Rightarrow> bool" where
  "needs a (Seq r1 r2) = (needs a r1 \<or> needs a r2)"
| "needs a (Alt r1 r2) = (needs a r1 \<and> needs a r2)"
| "needs a (Group n r) = needs a r"
| "needs a (Star r) = False"
| "needs a Emp = False"
| "needs a Bol = False"
| "needs a Eol = False"
| "needs a r = (a = r)"

definition sameText :: "mstate \<Rightarrow> mstate \<Rightarrow> bool" where
  "sameText a b = (pos a = pos b \<and> rest a = rest b)"

definition advances :: "bool \<Rightarrow> regex \<Rightarrow> mstate \<Rightarrow> mstate \<Rightarrow> bool" where
  "advances ic r st st' =
     ((\<exists>w. rest st = w @ rest st' \<and> pos st' = pos st + length w \<and> (\<forall>c\<in>set w. mayConsume ic r c))
      \<and> (\<exists>new. caps st' = new @ caps st \<and> fst ` set new \<subseteq> groups r))"

text \<open>The code units of a message that the Easter-egg pattern accepts, lower-cased.\<close>

definition suhairaChar :: "jschar \<Rightarrow> bool" where
  "suhairaChar c = (isSpace c \<or> c \<in> set (str ''iamsuhr''))"


section \<open>Session histories\<close>

lemmas regex_eval = regex_test_def regex_match_def seqs_def lit_def str_def step1_def chrEq_def
  canonicalize_def isDigit_def isSpace_def isWhiteSpace_def isLineTerminator_def Plus_def Opt_def
  toLowerCase_def lowerAt_def lowerUnit_def trim_def rmatch.simps(10)


lemma trim_empty_iff: "trim s = [] \<longleftrightarrow> (\<forall>c\<in>set s. isSpace c)"
proof -
  have a: "(\<forall>x\<in>set (dropWhile isSpace s). isSpace x) \<longleftrightarrow> (\<forall>x\<in>set s. isSpace x)"
  proof
    assume h: "\<forall>x\<in>set (dropWhile isSpace s). isSpace x"
    have "set s = set (takeWhile isSpace s) \<union> set (dropWhile isSpace s)"
      by (metis set_append takeWhile_dropWhile_id)
    then show "\<forall>x\<in>set s. isSpace x"
      using h by (auto dest: set_takeWhileD)
  next
    assume "\<forall>x\<in>set s. isSpace x"
    then show "\<forall>x\<in>set (dropWhile isSpace s). isSpace x"
      by (auto dest: set_dropWhileD)
  qed
  have "trim s = [] \<longleftrightarrow> (\<forall>x\<in>set (dropWhile isSpace s). isSpace x)"
    by (simp add: trim_def dropWhile_eq_Nil_conv)
  with a show ?thesis by simp
qed

lemma chatHandler_rejects:
  assumes "\<not> (\<exists>m. bodyMessage req = JStr m \<and> trim m \<noteq> [])"
  shows "historyAfter (chatHandler cfg w store req) = store"
    and "outbound (chatHandler cfg w store req) = []"
    and "\<forall>b. sent (chatHandler cfg w store req) \<noteq> Json200 b"
  using assms by (cases "bodyMessage req"; simp add: chatHandler_def Let_def)+

lemma chatHandler_accepts:
  assumes "bodyMessage req = JStr m" "trim m \<noteq> []"
  shows "\<exists>b calls. chatHandler cfg w store req =
     \<lparr>historyAfter = store(sessionIdOf (sessionHeader req) \<mapsto>
          sliceLast 20 (getHistory store (sessionHeader req)
             @ [\<lparr>role = User, content = Some m\<rparr>, \<lparr>role = Assistant, content = b\<rparr>])),
       sent = Json200 b, outbound = calls\<rparr>"
proof -
  have m: "m \<noteq> []" using assms(2) by (auto simp: trim_def)
  show ?thesis
    using assms m
    by (simp add: chatHandler_def Let_def getHistory_def sliceLast_def split: prod.splits)
qed

lemma length_sliceLast: "length (sliceLast n xs) = min n (length xs)"
  by (simp add: sliceLast_def)



lemma alternates_append:
  "alternates xs \<Longrightarrow> role u = User \<Longrightarrow> role a = Assistant \<Longrightarrow> alternates (xs @ [u, a])"
  by (induction xs rule: alternates.induct) auto

lemma alternates_drop2: "alternates xs \<Longrightarrow> alternates (drop 2 xs)"
  by (cases xs rule: alternates.cases) (auto simp: numeral_2_eq_2)

lemma alternates_even: "alternates xs \<Longrightarrow> even (length xs)"
  by (induction xs rule: alternates.induct) auto

lemma alternates_nth:
  "alternates xs \<Longrightarrow> i < length xs \<Longrightarrow> role (xs ! i) = (if even i then User else Assistant)"
proof (induction xs arbitrary: i rule: alternates.induct)
  case (3 u a xs)
  show ?case
  proof (cases i)
    case 0
    then show ?thesis using 3 by simp
  next
    case (Suc j)
    show ?thesis
    proof (cases j)
      case 0
      then show ?thesis using 3 Suc by simp
    next
      case (Suc k)
      then show ?thesis using 3 \<open>i = Suc j\<close> by simp
    qed
  qed
qed simp_all

lemma sliceLast_step:
  assumes "length h \<le> 20" "even (length h)"
  shows "sliceLast 20 (h @ [u, a]) = (if length h = 20 then drop 2 (h @ [u, a]) else h @ [u, a])"
proof (cases "length h = 20")
  case True
  then show ?thesis by (simp add: sliceLast_def)
next
  case False
  with assms have "length h \<le> 18" by presburger
  then show ?thesis using False by (simp add: sliceLast_def)
qed

lemma chatHandler_paired:
  assumes "paired store"
  shows "paired (historyAfter (chatHandler cfg w store req))"
proof (cases "\<exists>m. bodyMessage req = JStr m \<and> trim m \<noteq> []")
  case False
  then show ?thesis using assms chatHandler_rejects(1) by metis
next
  case True
  then obtain m where m: "bodyMessage req = JStr m" "trim m \<noteq> []" by blast
  let ?old = "getHistory store (sessionHeader req)"
  from chatHandler_accepts[OF m, of cfg w store] obtain b calls where out:
    "chatHandler cfg w store req =
     \<lparr>historyAfter = store(sessionIdOf (sessionHeader req) \<mapsto>
          sliceLast 20 (?old
             @ [\<lparr>role = User, content = Some m\<rparr>, \<lparr>role = Assistant, content = b\<rparr>])),
       sent = Json200 b, outbound = calls\<rparr>" by blast
  have old: "length ?old \<le> 20 \<and> alternates ?old"
    using assms by (auto simp: paired_def getHistory_def split: option.splits)
  let ?full = "?old @ [\<lparr>role = User, content = Some m\<rparr>, \<lparr>role = Assistant, content = b\<rparr>]"
  have full: "alternates ?full" using old by (simp add: alternates_append)
  have sl: "sliceLast 20 ?full = (if length ?old = 20 then drop 2 ?full else ?full)"
    using old by (intro sliceLast_step) (auto dest: alternates_even)
  have "alternates (sliceLast 20 ?full)"
    using full alternates_drop2[OF full] by (simp only: sl split: if_splits) auto
  moreover have "length (sliceLast 20 ?full) \<le> 20" by (simp add: length_sliceLast)
  ultimately show ?thesis using assms unfolding out paired_def by auto
qed

lemma serve_paired: "paired store \<Longrightarrow> paired (serve cfg store reqs)"
proof (induction reqs arbitrary: store)
  case Nil
  then show ?case by simp
next
  case (Cons a reqs)
  obtain w req where a: "a = (w, req)" by (cases a)
  show ?case using Cons.IH[OF chatHandler_paired[OF Cons.prems]] a by simp
qed


lemma chatHandler_eq:
  assumes "bodyMessage req = JStr m" "trim m \<noteq> []"
    and "generateResponse cfg w m
           (getHistory store (sessionHeader req) @ [\<lparr>role = User, content = Some m\<rparr>])
         = (Inr b, calls)"
  shows "chatHandler cfg w store req =
     \<lparr>historyAfter = store(sessionIdOf (sessionHeader req) \<mapsto>
          sliceLast 20 (getHistory store (sessionHeader req)
             @ [\<lparr>role = User, content = Some m\<rparr>, \<lparr>role = Assistant, content = b\<rparr>])),
       sent = Json200 b, outbound = calls\<rparr>"
proof -
  have m: "m \<noteq> []" using assms(2) by (auto simp: trim_def)
  show ?thesis
    using assms m
    by (simp add: chatHandler_def Let_def getHistory_def sliceLast_def split: prod.splits)
qed

lemma two_plus_two_reply:
  "generateResponse cfg w (str ''2+2'') h = (Inr (Some (str ''2 + 2 = 4'')), [])"
  by (simp add: generateResponse_def re_two_plus_two_def regex_eval)

lemma trim_two_plus_two: "trim (str ''2+2'') \<noteq> []"
  by (simp add: regex_eval)




text \<open>
  Claim C2. A chat request whose message is missing, empty or made of white space only is
  answered with status 400 and an error body; the session store is left as it was and the
  provider is not called.
\<close>
theorem blank_message_rejected:
  assumes "bodyMessage req = JUndefined \<or> (\<exists>s. bodyMessage req = JStr s \<and> (\<forall>c\<in>set s. isSpace c))"
  shows "sent (chatHandler cfg w store req) = Json400 (str ''Message is required'')
     \<and> historyAfter (chatHandler cfg w store req) = store
     \<and> outbound (chatHandler cfg w store req) = []"
  using assms
proof
  assume "bodyMessage req = JUndefined"
  then show ?thesis by (simp add: chatHandler_def)
next
  assume "\<exists>s. bodyMessage req = JStr s \<and> (\<forall>c\<in>set s. isSpace c)"
  then obtain s where s: "bodyMessage req = JStr s" "trim s = []"
    using trim_empty_iff by blast
  then show ?thesis by (simp add: chatHandler_def)
qed

theorem blank_message_rejected_witness:
  "sent (chatHandler exampleConfig exampleWorld [str ''default'' \<mapsto> exampleTurns 1]
      \<lparr>sessionHeader = None, bodyMessage = JStr [0x20, 0x09, 0x0A, 0xA0]\<rparr>)
     = Json400 (str ''Message is required'')
   \<and> getHistory (historyAfter (chatHandler exampleConfig exampleWorld [str ''default'' \<mapsto> exampleTurns 1]
      \<lparr>sessionHeader = None, bodyMessage = JStr [0x20, 0x09, 0x0A, 0xA0]\<rparr>)) None = exampleTurns 1
   \<and> sent (chatHandler exampleConfig exampleWorld [str ''default'' \<mapsto> exampleTurns 1]
      \<lparr>sessionHeader = None, bodyMessage = JUndefined\<rparr>)
     = Json400 (str ''Message is required'')"
  using blank_message_rejected[of "\<lparr>sessionHeader = None, bodyMessage = JStr [0x20, 0x09, 0x0A, 0xA0]\<rparr>"
          exampleConfig exampleWorld "[str ''default'' \<mapsto> exampleTurns 1]"]
        blank_message_rejected[of "\<lparr>sessionHeader = None, bodyMessage = JUndefined\<rparr>"
          exampleConfig exampleWorld "[str ''default'' \<mapsto> exampleTurns 1]"]
  by (simp add: isSpace_def isWhiteSpace_def isLineTerminator_def getHistory_def sessionIdOf_def)

lemma alternates_iff:
  "alternates xs \<longleftrightarrow> even (length xs)
      \<and> (\<forall>i<length xs. role (xs ! i) = (if even i then User else Assistant))"
proof
  assume "alternates xs"
  then show "even (length xs) \<and> (\<forall>i<length xs. role (xs ! i) = (if even i then User else Assistant))"
    using alternates_even alternates_nth by blast
next
  show "even (length xs) \<and> (\<forall>i<length xs. role (xs ! i) = (if even i then User else Assistant))
    \<Longrightarrow> alternates xs"
  proof (induction xs rule: alternates.induct)
    case 1
    then show ?case by simp
  next
    case (2 x)
    then show ?case by simp
  next
    case (3 u a xs)
    then have all: "\<forall>i<Suc (Suc (length xs)). role ((u # a # xs) ! i) = (if even i then User else Assistant)"
      and ev: "even (length xs)" by simp_all
    from all have "role ((u # a # xs) ! 0) = User" by (metis even_zero zero_less_Suc)
    then have u: "role u = User" by simp
    from all have "role ((u # a # xs) ! Suc 0) = (if even (Suc 0) then User else Assistant)"
      by (metis Suc_less_eq zero_less_Suc)
    then have a: "role a = Assistant" by simp
    have "\<forall>i<length xs. role (xs ! i) = (if even i then User else Assistant)"
    proof (intro allI impI)
      fix i assume "i < length xs"
      then have "role ((u # a # xs) ! Suc (Suc i)) = (if even (Suc (Suc i)) then User else Assistant)"
        using all by (metis Suc_less_eq)
      then show "role (xs ! i) = (if even i then User else Assistant)" by simp
    qed
    with ev 3 have "alternates xs" by blast
    with u a show ?case by simp
  qed
qed

text \<open>
  Claim C10. Served without interleaving from a store whose histories hold at most 20
  turns, have even length and alternate user, assistant, ... from a user turn (the empty
  store is one), every stored history has even length and alternates in that way. A request
  answered with status 200 appends one user turn and one assistant turn, and the cut to 20
  turns drops the oldest pair exactly when the history held 20 turns before.
\<close>
theorem turns_alternate:
  assumes "\<forall>sid h. store sid = Some h \<longrightarrow> length h \<le> 20 \<and> even (length h)
             \<and> (\<forall>i<length h. role (h ! i) = (if even i then User else Assistant))"
  shows "(\<forall>sid h. serve cfg store reqs sid = Some h \<longrightarrow> even (length h)
             \<and> (\<forall>i<length h. role (h ! i) = (if even i then User else Assistant)))
    \<and> (\<forall>w req b. sent (chatHandler cfg w store req) = Json200 b \<longrightarrow>
         (\<exists>m. bodyMessage req = JStr m \<and>
            (let old = getHistory store (sessionHeader req);
                 full = old @ [\<lparr>role = User, content = Some m\<rparr>, \<lparr>role = Assistant, content = b\<rparr>]
             in getHistory (historyAfter (chatHandler cfg w store req)) (sessionHeader req)
                  = (if length old = 20 then drop 2 full else full))))"
proof -
  have p: "paired store"
    unfolding paired_def using assms alternates_iff by blast
  have one: "\<forall>sid h. serve cfg store reqs sid = Some h \<longrightarrow> even (length h)
             \<and> (\<forall>i<length h. role (h ! i) = (if even i then User else Assistant))"
    using serve_paired[OF p, of cfg reqs] alternates_iff unfolding paired_def by blast
  have two: "\<exists>m. bodyMessage req = JStr m \<and>
            (let old = getHistory store (sessionHeader req);
                 full = old @ [\<lparr>role = User, content = Some m\<rparr>, \<lparr>role = Assistant, content = b\<rparr>]
             in getHistory (historyAfter (chatHandler cfg w store req)) (sessionHeader req)
                  = (if length old = 20 then drop 2 full else full))"
    if s: "sent (chatHandler cfg w store req) = Json200 b" for w req b
  proof -
    from s have "\<exists>m. bodyMessage req = JStr m \<and> trim m \<noteq> []"
      using chatHandler_rejects(3) by blast
    then obtain m where m: "bodyMessage req = JStr m" "trim m \<noteq> []" by blast
    let ?old = "getHistory store (sessionHeader req)"
    from chatHandler_accepts[OF m, of cfg w store] obtain b' calls where out:
      "chatHandler cfg w store req =
       \<lparr>historyAfter = store(sessionIdOf (sessionHeader req) \<mapsto>
            sliceLast 20 (?old
               @ [\<lparr>role = User, content = Some m\<rparr>, \<lparr>role = Assistant, content = b'\<rparr>])),
         sent = Json200 b', outbound = calls\<rparr>" by blast
    with s have b: "b' = b" by simp
    have old: "length ?old \<le> 20 \<and> even (length ?old)"
      using p by (auto simp: paired_def getHistory_def dest: alternates_even split: option.splits)
    have "sliceLast 20 (?old @ [\<lparr>role = User, content = Some m\<rparr>, \<lparr>role = Assistant, content = b\<rparr>])
       = (if length ?old = 20
          then drop 2 (?old @ [\<lparr>role = User, content = Some m\<rparr>, \<lparr>role = Assistant, content = b\<rparr>])
          else ?old @ [\<lparr>role = User, content = Some m\<rparr>, \<lparr>role = Assistant, content = b\<rparr>])"
      using old by (intro sliceLast_step) auto
    then have "getHistory (historyAfter (chatHandler cfg w store req)) (sessionHeader req)
       = (if length ?old = 20
          then drop 2 (?old @ [\<lparr>role = User, content = Some m\<rparr>, \<lparr>role = Assistant, content = b\<rparr>])
          else ?old @ [\<lparr>role = User, content = Some m\<rparr>, \<lparr>role = Assistant, content = b\<rparr>])"
      unfolding out b by (simp add: getHistory_def)
    with m(1) show ?thesis by (simp add: Let_def)
  qed
  from one two show ?thesis by blast
qed

theorem turns_alternate_witness:
  "getHistory (serve exampleConfig Map.empty
     [(exampleWorld, \<lparr>sessionHeader = None, bodyMessage = JStr (str ''2+2'')\<rparr>),
      (exampleWorld, \<lparr>sessionHeader = None, bodyMessage = JStr (str ''2+2'')\<rparr>)]) None
   = exampleTurns 2
   \<and> map role (exampleTurns 2) = [User, Assistant, User, Assistant]"
proof -
  let ?req = "\<lparr>sessionHeader = None, bodyMessage = JStr (str ''2+2'')\<rparr>"
  have e0: "\<forall>sid h. Map.empty sid = Some h \<longrightarrow> length h \<le> 20 \<and> even (length h)
             \<and> (\<forall>i<length h. role (h ! i) = (if even i then User else Assistant))"
    by simp
  have out: "chatHandler exampleConfig exampleWorld store ?req =
     \<lparr>historyAfter = store(sessionIdOf (sessionHeader ?req) \<mapsto>
          sliceLast 20 (getHistory store (sessionHeader ?req)
             @ [\<lparr>role = User, content = Some (str ''2+2'')\<rparr>,
                \<lparr>role = Assistant, content = Some (str ''2 + 2 = 4'')\<rparr>])),
       sent = Json200 (Some (str ''2 + 2 = 4'')), outbound = []\<rparr>" for store
    by (rule chatHandler_eq) (simp_all add: trim_two_plus_two two_plus_two_reply)
  have run: "serve exampleConfig Map.empty [(exampleWorld, ?req), (exampleWorld, ?req)]
      = [str ''default'' \<mapsto> exampleTurns 2]"
    by (simp add: out getHistory_def sessionIdOf_def sliceLast_def exampleTurns_def numeral_2_eq_2)
  from turns_alternate[OF e0, of exampleConfig "[(exampleWorld, ?req), (exampleWorld, ?req)]"]
  have "\<forall>i<length (exampleTurns 2). role (exampleTurns 2 ! i) = (if even i then User else Assistant)"
    unfolding run by simp
  then have "role (exampleTurns 2 ! 0) = User \<and> role (exampleTurns 2 ! 1) = Assistant"
    by (simp add: exampleTurns_def numeral_2_eq_2)
  then show ?thesis
    unfolding run by (simp add: getHistory_def sessionIdOf_def exampleTurns_def numeral_2_eq_2)
qed


section \<open>Fallback and provider failure\<close>

lemmas rule_patterns = re_two_plus_two_def re_time_def re_date_def re_arith_test_def re_who_def
  re_how_work_def re_thank_def re_suhaira_def

lemma startsWith_iff: "startsWith s t \<longleftrightarrow> (\<exists>post. s = t @ post)"
  by (induction s t rule: startsWith.induct) auto

lemma includes_js_iff: "includes_js s t \<longleftrightarrow> (\<exists>pre post. s = pre @ t @ post)"
proof (induction s)
  case Nil
  then show ?case by auto
next
  case (Cons c s)
  have "(\<exists>pre post. c # s = pre @ t @ post)
      \<longleftrightarrow> (\<exists>post. c # s = t @ post) \<or> (\<exists>pre post. s = pre @ t @ post)"
  proof
    assume "\<exists>pre post. c # s = pre @ t @ post"
    then obtain pre post where e: "c # s = pre @ t @ post" by blast
    show "(\<exists>post. c # s = t @ post) \<or> (\<exists>pre post. s = pre @ t @ post)"
    proof (cases pre)
      case Nil
      then show ?thesis using e by auto
    next
      case (Cons p ps)
      then have "s = ps @ t @ post" using e by simp
      then show ?thesis by blast
    qed
  next
    assume "(\<exists>post. c # s = t @ post) \<or> (\<exists>pre post. s = pre @ t @ post)"
    then show "\<exists>pre post. c # s = pre @ t @ post"
    proof
      assume "\<exists>post. c # s = t @ post"
      then show ?thesis by (metis append_Nil)
    next
      assume "\<exists>pre post. s = pre @ t @ post"
      then obtain pre post where "s = pre @ t @ post" by blast
      then have "c # s = (c # pre) @ t @ post" by simp
      then show ?thesis by blast
    qed
  qed
  then show ?case using Cons startsWith_iff by simp
qed

lemma fallbackResponses_length: "length fallbackResponses = 8"
  by (simp add: fallbackResponses_def)

lemma fallbackResponses_nonempty: "r \<in> set fallbackResponses \<Longrightarrow> r \<noteq> []"
  by (auto simp: fallbackResponses_def)

lemma random_index:
  assumes "0 \<le> (r::real)" "r < 1"
  shows "0 \<le> \<lfloor>r * 8\<rfloor> \<and> \<lfloor>r * 8\<rfloor> < 8"
proof -
  have "0 \<le> r * 8" using assms by simp
  moreover have "r * 8 < 8" using assms by simp
  ultimately show ?thesis by (simp add: floor_less_iff)
qed

lemma arrayGet_random:
  assumes "0 \<le> (r::real)" "r < 1"
  shows "arrayGet fallbackResponses \<lfloor>r * real (length fallbackResponses)\<rfloor>
     = Some (fallbackResponses ! nat \<lfloor>r * 8\<rfloor>)"
  using random_index[OF assms] by (simp add: arrayGet_def fallbackResponses_length)

lemma generateResponse_no_rule:
  "\<not> ruleMatches (lowerTable w) m \<Longrightarrow> generateResponse cfg w m h =
     (if keyConfigured cfg then callGroq cfg w m h
      else (Inr (getSmartFallback (lowerTable w) (mathRandom w) m), []))"
  by (simp add: ruleMatches_def generateResponse_def Let_def)

lemma callGroq_failed:
  "providerFailed (fetchGroq w (groqRequestBody cfg m h))
    \<Longrightarrow> \<exists>e. callGroq cfg w m h = (Inl e, [groqRequestBody cfg m h])"
  by (cases "fetchGroq w (groqRequestBody cfg m h)")
     (auto simp: callGroq_def Let_def split: groqData.splits)


lemma chatHandler_thrown:
  assumes "bodyMessage req = JStr m" "trim m \<noteq> []"
    and "generateResponse cfg w m
           (getHistory store (sessionHeader req) @ [\<lparr>role = User, content = Some m\<rparr>])
         = (Inl e, calls)"
  shows "chatHandler cfg w store req =
     \<lparr>historyAfter = store(sessionIdOf (sessionHeader req) \<mapsto>
          sliceLast 20 (getHistory store (sessionHeader req)
             @ [\<lparr>role = User, content = Some m\<rparr>,
                \<lparr>role = Assistant, content = getSmartFallback (lowerTable w) (mathRandom w) m\<rparr>])),
       sent = Json200 (getSmartFallback (lowerTable w) (mathRandom w) m), outbound = calls\<rparr>"
proof -
  have m: "m \<noteq> []" using assms(2) by (auto simp: trim_def)
  show ?thesis
    using assms m
    by (simp add: chatHandler_def Let_def getHistory_def sliceLast_def split: prod.splits)
qed

lemma getSmartFallback_eq:
  assumes "0 \<le> r" "r < 1"
  shows "getSmartFallback tbl r m = Some
         (let lowerMessage = toLowerCase tbl m in
          if includes_js lowerMessage (str ''hello'') \<or> includes_js lowerMessage (str ''hi'')
            then greetingReply
          else if includes_js lowerMessage (str ''how are you'') then howAreYouReply
          else if includes_js lowerMessage (str ''what'') \<and> includes_js lowerMessage (str ''name'')
            then nameReply
          else if includes_js lowerMessage (str ''help'') then helpReply
          else if includes_js lowerMessage (str ''bye'') \<or> includes_js lowerMessage (str ''goodbye'')
            then byeReply
          else fallbackResponses ! nat \<lfloor>r * 8\<rfloor>)"
  by (simp add: getSmartFallback_def Let_def arrayGet_random[OF assms])

lemma getSmartFallback_pool:
  assumes "0 \<le> r" "r < 1"
  shows "\<exists>reply. getSmartFallback tbl r m = Some reply \<and> reply \<noteq> []
     \<and> reply \<in> set ([greetingReply, howAreYouReply, nameReply, helpReply, byeReply] @ fallbackResponses)"
proof -
  have "\<lfloor>r * 8\<rfloor> < 8" using random_index[OF assms] by blast
  then have "nat \<lfloor>r * 8\<rfloor> < 8" by linarith
  then have i: "nat \<lfloor>r * 8\<rfloor> < length fallbackResponses"
    by (simp only: fallbackResponses_length)
  then have mem: "fallbackResponses ! nat \<lfloor>r * 8\<rfloor> \<in> set fallbackResponses"
    by (rule nth_mem)
  have ne: "fallbackResponses ! nat \<lfloor>r * 8\<rfloor> \<noteq> []"
    using mem fallbackResponses_nonempty by blast
  have fixed: "greetingReply \<noteq> []" "howAreYouReply \<noteq> []" "nameReply \<noteq> []" "helpReply \<noteq> []"
    "byeReply \<noteq> []"
    by (simp_all add: greetingReply_def howAreYouReply_def nameReply_def helpReply_def byeReply_def)
  show ?thesis
    using mem ne fixed
    by (simp add: getSmartFallback_def Let_def arrayGet_random[OF assms])
qed

text \<open>
  Claim C7. With no provider credential, a message that no rule takes is answered with
  status 200 by a reply that is not empty and is one of the five fixed keyword replies or
  one of the eight generic replies. The reply is chosen on the lower-cased message, in this
  order: greeting, "how are you", "what" with "name", "help", "bye"; otherwise it is the
  generic reply at index \<open>\<lfloor>8 r\<rfloor>\<close> for the random draw \<open>0 \<le> r < 1\<close>, so that
  each of the eight corresponds to one eighth of the interval. The provider is not called.
\<close>
theorem fallback_without_credential:
  assumes "\<not> keyConfigured cfg" and "bodyMessage req = JStr m" and "trim m \<noteq> []"
    and "\<not> ruleMatches (lowerTable w) m" and "0 \<le> mathRandom w" and "mathRandom w < 1"
  shows "\<exists>reply. sent (chatHandler cfg w store req) = Json200 (Some reply)
      \<and> outbound (chatHandler cfg w store req) = []
      \<and> reply \<noteq> []
      \<and> reply \<in> set ([greetingReply, howAreYouReply, nameReply, helpReply, byeReply] @ fallbackResponses)
      \<and> length fallbackResponses = 8
      \<and> reply =
         (let lowerMessage = toLowerCase (lowerTable w) m in
          if includes_js lowerMessage (str ''hello'') \<or> includes_js lowerMessage (str ''hi'')
            then greetingReply
          else if includes_js lowerMessage (str ''how are you'') then howAreYouReply
          else if includes_js lowerMessage (str ''what'') \<and> includes_js lowerMessage (str ''name'')
            then nameReply
          else if includes_js lowerMessage (str ''help'') then helpReply
          else if includes_js lowerMessage (str ''bye'') \<or> includes_js lowerMessage (str ''goodbye'')
            then byeReply
          else fallbackResponses ! nat \<lfloor>mathRandom w * 8\<rfloor>)"
proof -
  let ?h = "getHistory store (sessionHeader req) @ [\<lparr>role = User, content = Some m\<rparr>]"
  have g: "generateResponse cfg w m ?h = (Inr (getSmartFallback (lowerTable w) (mathRandom w) m), [])"
    using assms(1,4) by (simp add: generateResponse_no_rule)
  have out: "sent (chatHandler cfg w store req) = Json200 (getSmartFallback (lowerTable w) (mathRandom w) m)"
    "outbound (chatHandler cfg w store req) = []"
    using chatHandler_eq[OF assms(2,3) g] by simp_all
  from getSmartFallback_pool[OF assms(5,6), of "lowerTable w" m] obtain reply where
    r: "getSmartFallback (lowerTable w) (mathRandom w) m = Some reply" "reply \<noteq> []"
      "reply \<in> set ([greetingReply, howAreYouReply, nameReply, helpReply, byeReply] @ fallbackResponses)"
    by blast
  have form: "reply =
         (let lowerMessage = toLowerCase (lowerTable w) m in
          if includes_js lowerMessage (str ''hello'') \<or> includes_js lowerMessage (str ''hi'')
            then greetingReply
          else if includes_js lowerMessage (str ''how are you'') then howAreYouReply
          else if includes_js lowerMessage (str ''what'') \<and> includes_js lowerMessage (str ''name'')
            then nameReply
          else if includes_js lowerMessage (str ''help'') then helpReply
          else if includes_js lowerMessage (str ''bye'') \<or> includes_js lowerMessage (str ''goodbye'')
            then byeReply
          else fallbackResponses ! nat \<lfloor>mathRandom w * 8\<rfloor>)"
    using r(1) unfolding getSmartFallback_eq[OF assms(5,6)] by simp
  show ?thesis
    using out r form fallbackResponses_length by (intro exI[of _ reply]) (simp only: simp_thms)
qed

lemma zzz_no_rule: "\<not> ruleMatches tbl (str ''zzz'')"
  by (simp add: ruleMatches_def rule_patterns regex_eval)

lemma zzz_trim: "trim (str ''zzz'') \<noteq> []"
  by (simp add: regex_eval)

lemma zzz_fallback: "getSmartFallback tbl (1 / 2) (str ''zzz'') = Some (fallbackResponses ! 4)"
  by (simp add: getSmartFallback_def toLowerCase_def lowerAt_def lowerUnit_def str_def arrayGet_def
      fallbackResponses_length)

text \<open>The Kelvin sign lower-cases to \<^verbatim>\<open>k\<close>: the gratitude rule takes the message, and
  neither the provider nor the fallback is reached. The capital I with dot lower-cases to
  \<^verbatim>\<open>i\<close> and a combining dot: no rule takes the message, and the fallback finds the
  keyword \<^verbatim>\<open>hi\<close>.\<close>

lemma kelvin_sign_lowered: "toLowerCase tbl (str ''than'' @ [0x212A]) = str ''thank''"
  by (simp add: toLowerCase_def lowerAt_def lowerUnit_def str_def isSpace_def isWhiteSpace_def
      isLineTerminator_def)

lemma kelvin_sign_gratitude:
  "ruleMatches tbl (str ''than'' @ [0x212A])"
  "generateResponse cfg w (str ''than'' @ [0x212A]) h = (Inr (Some thankReply), [])"
  unfolding ruleMatches_def generateResponse_def kelvin_sign_lowered
  by (simp_all add: rule_patterns regex_eval)

lemma dotted_I_lowered: "toLowerCase tbl (str ''H'' @ [0x0130]) = str ''hi'' @ [0x0307]"
  by (simp add: toLowerCase_def lowerAt_def lowerUnit_def str_def isSpace_def isWhiteSpace_def
      isLineTerminator_def)

lemma dotted_I_no_rule: "\<not> ruleMatches tbl (str ''H'' @ [0x0130])"
proof -
  have "trim (str ''H'' @ [0x0130]) = str ''H'' @ [0x0130]" by (simp add: regex_eval)
  then show ?thesis
    unfolding ruleMatches_def dotted_I_lowered by (simp add: rule_patterns regex_eval)
qed

lemma dotted_I_trim: "trim (str ''H'' @ [0x0130]) \<noteq> []"
  by (simp add: regex_eval)

theorem fallback_without_credential_witness:
  "sent (chatHandler exampleConfig exampleWorld Map.empty
      \<lparr>sessionHeader = None, bodyMessage = JStr (str ''zzz'')\<rparr>)
    = Json200 (Some ([0xD83D, 0xDE4F] @ str '' Thanks for sharing that with me. What'' @ [0x0027]
        @ str ''s on your mind?''))
   \<and> sent (chatHandler exampleConfig exampleWorld Map.empty
      \<lparr>sessionHeader = None, bodyMessage = JStr (str ''H'' @ [0x0130])\<rparr>)
    = Json200 (Some greetingReply)"
proof -
  have k: "\<not> keyConfigured exampleConfig" by (simp add: keyConfigured_def exampleConfig_def)
  have r: "0 \<le> mathRandom exampleWorld" "mathRandom exampleWorld < 1"
    by (simp_all add: exampleWorld_def)
  have b: "bodyMessage \<lparr>sessionHeader = None, bodyMessage = JStr (str ''zzz'')\<rparr> = JStr (str ''zzz'')"
    by simp
  from fallback_without_credential[where store = Map.empty, OF k b zzz_trim zzz_no_rule r]
  obtain reply where
    s: "sent (chatHandler exampleConfig exampleWorld Map.empty
          \<lparr>sessionHeader = None, bodyMessage = JStr (str ''zzz'')\<rparr>) = Json200 (Some reply)"
    and f: "reply =
         (let lowerMessage = toLowerCase (lowerTable exampleWorld) (str ''zzz'') in
          if includes_js lowerMessage (str ''hello'') \<or> includes_js lowerMessage (str ''hi'')
            then greetingReply
          else if includes_js lowerMessage (str ''how are you'') then howAreYouReply
          else if includes_js lowerMessage (str ''what'') \<and> includes_js lowerMessage (str ''name'')
            then nameReply
          else if includes_js lowerMessage (str ''help'') then helpReply
          else if includes_js lowerMessage (str ''bye'') \<or> includes_js lowerMessage (str ''goodbye'')
            then byeReply
          else fallbackResponses ! nat \<lfloor>mathRandom exampleWorld * 8\<rfloor>)"
    by (elim exE conjE) (rule that)
  have "reply = fallbackResponses ! 4"
    unfolding f
    by (simp add: toLowerCase_def lowerAt_def lowerUnit_def str_def exampleWorld_def)
  then have "reply = [0xD83D, 0xDE4F] @ str '' Thanks for sharing that with me. What'' @ [0x0027]
        @ str ''s on your mind?''"
    by (simp add: fallbackResponses_def)
  with s have 1: "sent (chatHandler exampleConfig exampleWorld Map.empty
      \<lparr>sessionHeader = None, bodyMessage = JStr (str ''zzz'')\<rparr>)
    = Json200 (Some ([0xD83D, 0xDE4F] @ str '' Thanks for sharing that with me. What'' @ [0x0027]
        @ str ''s on your mind?''))" by simp
  have b': "bodyMessage \<lparr>sessionHeader = None, bodyMessage = JStr (str ''H'' @ [0x0130])\<rparr>
      = JStr (str ''H'' @ [0x0130])"
    by simp
  from fallback_without_credential[where store = Map.empty, OF k b' dotted_I_trim dotted_I_no_rule r]
  obtain reply' where
    s': "sent (chatHandler exampleConfig exampleWorld Map.empty
          \<lparr>sessionHeader = None, bodyMessage = JStr (str ''H'' @ [0x0130])\<rparr>)
        = Json200 (Some reply')"
    and f': "reply' =
         (let lowerMessage = toLowerCase (lowerTable exampleWorld) (str ''H'' @ [0x0130]) in
          if includes_js lowerMessage (str ''hello'') \<or> includes_js lowerMessage (str ''hi'')
            then greetingReply
          else if includes_js lowerMessage (str ''how are you'') then howAreYouReply
          else if includes_js lowerMessage (str ''what'') \<and> includes_js lowerMessage (str ''name'')
            then nameReply
          else if includes_js lowerMessage (str ''help'') then helpReply
          else if includes_js lowerMessage (str ''bye'') \<or> includes_js lowerMessage (str ''goodbye'')
            then byeReply
          else fallbackResponses ! nat \<lfloor>mathRandom exampleWorld * 8\<rfloor>)"
    by (elim exE conjE) (rule that)
  have "reply' = greetingReply"
    unfolding f' dotted_I_lowered by (simp add: str_def)
  with s' have 2: "sent (chatHandler exampleConfig exampleWorld Map.empty
      \<lparr>sessionHeader = None, bodyMessage = JStr (str ''H'' @ [0x0130])\<rparr>)
    = Json200 (Some greetingReply)" by simp
  from 1 2 show ?thesis by (rule conjI)
qed

text \<open>
  Claim C3. With a provider credential, when no rule takes the message and the provider
  call fails (the request is rejected, the status is not a success, the body is not JSON,
  the body has no usable first choice, or reading it raises), the reply is the fallback
  for the message, the status is 200, and the history records that reply.
\<close>
theorem provider_failure_falls_back:
  assumes "keyConfigured cfg" and "bodyMessage req = JStr m" and "trim m \<noteq> []"
    and "\<not> ruleMatches (lowerTable w) m"
    and "providerFailed (fetchGroq w (groqRequestBody cfg m
           (getHistory store (sessionHeader req) @ [\<lparr>role = User, content = Some m\<rparr>])))"
  shows "sent (chatHandler cfg w store req) = Json200 (getSmartFallback (lowerTable w) (mathRandom w) m)
     \<and> getHistory (historyAfter (chatHandler cfg w store req)) (sessionHeader req)
        = sliceLast 20 (getHistory store (sessionHeader req)
             @ [\<lparr>role = User, content = Some m\<rparr>,
                \<lparr>role = Assistant, content = getSmartFallback (lowerTable w) (mathRandom w) m\<rparr>])"
proof -
  let ?h = "getHistory store (sessionHeader req) @ [\<lparr>role = User, content = Some m\<rparr>]"
  from callGroq_failed[OF assms(5)] obtain e where
    "callGroq cfg w m ?h = (Inl e, [groqRequestBody cfg m ?h])" by blast
  then have g: "generateResponse cfg w m ?h = (Inl e, [groqRequestBody cfg m ?h])"
    using assms(1,4) by (simp add: generateResponse_no_rule)
  show ?thesis
    using chatHandler_thrown[OF assms(2,3) g] by (simp add: getHistory_def)
qed

theorem provider_failure_falls_back_witness:
  "sent (chatHandler (exampleConfig\<lparr>GROQ_API_KEY := Some (str ''gsk_example'')\<rparr>)
      (exampleWorld\<lparr>fetchGroq := (\<lambda>q. HttpResponse 503 Unparseable)\<rparr>) Map.empty
      \<lparr>sessionHeader = None, bodyMessage = JStr (str ''zzz'')\<rparr>)
    = Json200 (Some (fallbackResponses ! 4))"
proof -
  let ?cfg = "exampleConfig\<lparr>GROQ_API_KEY := Some (str ''gsk_example'')\<rparr>"
  let ?w = "exampleWorld\<lparr>fetchGroq := (\<lambda>q. HttpResponse 503 Unparseable)\<rparr>"
  let ?req = "\<lparr>sessionHeader = None, bodyMessage = JStr (str ''zzz'')\<rparr>"
  have k: "keyConfigured ?cfg" by (simp add: keyConfigured_def exampleConfig_def str_def)
  have b: "bodyMessage ?req = JStr (str ''zzz'')" by simp
  have p: "providerFailed (fetchGroq ?w (groqRequestBody ?cfg (str ''zzz'')
           (getHistory Map.empty (sessionHeader ?req) @ [\<lparr>role = User, content = Some (str ''zzz'')\<rparr>])))"
    by simp
  have mr: "mathRandom ?w = 1 / 2" by (simp add: exampleWorld_def)
  have fb: "getSmartFallback (lowerTable ?w) (mathRandom ?w) (str ''zzz'') = Some (fallbackResponses ! 4)"
    unfolding mr by (rule zzz_fallback)
  from provider_failure_falls_back[OF k b zzz_trim zzz_no_rule p]
  have "sent (chatHandler ?cfg ?w Map.empty ?req)
      = Json200 (getSmartFallback (lowerTable ?w) (mathRandom ?w) (str ''zzz''))"
    by (rule conjunct1)
  then show ?thesis by (simp only: fb)
qed

text \<open>
  Claim C9. The keyword checks of the fallback are substring checks on the lower-cased
  message: a message whose lower-cased form contains "hi" anywhere gets the greeting reply;
  a message whose lower-cased form contains "what" and "name", in any order and inside
  other words, gets the identity reply when the greeting and "how are you" checks do not
  apply.
\<close>
theorem fallback_keywords_are_substrings:
  "(toLowerCase tbl message = pre @ str ''hi'' @ post
      \<longrightarrow> getSmartFallback tbl rnd message = Some greetingReply)
   \<and> (toLowerCase tbl message = a @ str ''what'' @ b \<and> toLowerCase tbl message = c @ str ''name'' @ d
       \<and> \<not> includes_js (toLowerCase tbl message) (str ''hello'')
       \<and> \<not> includes_js (toLowerCase tbl message) (str ''hi'')
       \<and> \<not> includes_js (toLowerCase tbl message) (str ''how are you'')
      \<longrightarrow> getSmartFallback tbl rnd message = Some nameReply)"
proof (intro conjI impI)
  assume "toLowerCase tbl message = pre @ str ''hi'' @ post"
  then have "includes_js (toLowerCase tbl message) (str ''hi'')"
    using includes_js_iff by blast
  then show "getSmartFallback tbl rnd message = Some greetingReply"
    by (simp add: getSmartFallback_def Let_def)
next
  assume h: "toLowerCase tbl message = a @ str ''what'' @ b \<and> toLowerCase tbl message = c @ str ''name'' @ d
       \<and> \<not> includes_js (toLowerCase tbl message) (str ''hello'')
       \<and> \<not> includes_js (toLowerCase tbl message) (str ''hi'')
       \<and> \<not> includes_js (toLowerCase tbl message) (str ''how are you'')"
  then have inc: "includes_js (toLowerCase tbl message) (str ''what'')"
    "includes_js (toLowerCase tbl message) (str ''name'')"
    using includes_js_iff by blast+
  from h have exc: "\<not> includes_js (toLowerCase tbl message) (str ''hello'')"
    "\<not> includes_js (toLowerCase tbl message) (str ''hi'')"
    "\<not> includes_js (toLowerCase tbl message) (str ''how are you'')"
    by blast+
  show "getSmartFallback tbl rnd message = Some nameReply"
    by (simp add: getSmartFallback_def Let_def inc exc)
qed

theorem fallback_keywords_are_substrings_witness:
  "getSmartFallback (lowerTable exampleWorld) 0 (str ''Chips'') = Some greetingReply
   \<and> getSmartFallback (lowerTable exampleWorld) 0 (str ''this'') = Some greetingReply
   \<and> getSmartFallback (lowerTable exampleWorld) 0 (str ''rename whatever'') = Some nameReply
   \<and> getSmartFallback (lowerTable exampleWorld) 0 (str ''what name H'' @ [0x0130])
       = Some greetingReply"
proof -
  let ?tbl = "lowerTable exampleWorld"
  have 1: "toLowerCase ?tbl (str ''Chips'') = str ''c'' @ str ''hi'' @ str ''ps''"
    by (simp add: toLowerCase_def lowerAt_def lowerUnit_def str_def)
  have 2: "toLowerCase ?tbl (str ''this'') = str ''t'' @ str ''hi'' @ str ''s''"
    by (simp add: toLowerCase_def lowerAt_def lowerUnit_def str_def)
  have 3: "toLowerCase ?tbl (str ''rename whatever'') = str ''rename '' @ str ''what'' @ str ''ever''
       \<and> toLowerCase ?tbl (str ''rename whatever'') = str ''re'' @ str ''name'' @ str '' whatever''
       \<and> \<not> includes_js (toLowerCase ?tbl (str ''rename whatever'')) (str ''hello'')
       \<and> \<not> includes_js (toLowerCase ?tbl (str ''rename whatever'')) (str ''hi'')
       \<and> \<not> includes_js (toLowerCase ?tbl (str ''rename whatever'')) (str ''how are you'')"
    by (simp add: toLowerCase_def lowerAt_def lowerUnit_def str_def)
  have 4: "toLowerCase ?tbl (str ''what name H'' @ [0x0130])
      = str ''what name '' @ str ''hi'' @ [0x0307]"
    by (simp add: toLowerCase_def lowerAt_def lowerUnit_def str_def isSpace_def isWhiteSpace_def
        isLineTerminator_def)
  note a = fallback_keywords_are_substrings[of ?tbl "str ''Chips''" "str ''c''" "str ''ps''" 0,
      THEN conjunct1, THEN mp, OF 1]
  note b = fallback_keywords_are_substrings[of ?tbl "str ''this''" "str ''t''" "str ''s''" 0,
      THEN conjunct1, THEN mp, OF 2]
  note c = fallback_keywords_are_substrings[of ?tbl "str ''rename whatever''" _ _ 0
      "str ''rename ''" "str ''ever''" "str ''re''" "str '' whatever''",
      THEN conjunct2, THEN mp, OF 3]
  note d = fallback_keywords_are_substrings[of ?tbl "str ''what name H'' @ [0x0130]"
      "str ''what name ''" "[0x0307]" 0, THEN conjunct1, THEN mp, OF 4]
  from a b c d show ?thesis by (intro conjI)
qed


section \<open>Retrieval\<close>

lemma insertSorted_set: "set (insertSorted cmp x ys) = insert x (set ys)"
  by (induction ys) auto

lemma insertSorted_ranks:
  assumes "sorted_wrt ranks ys" "\<forall>y\<in>set ys. idx x < idx y"
  shows "sorted_wrt ranks (insertSorted (\<lambda>a b. score b - score a) x ys)"
  using assms
proof (induction ys)
  case Nil
  then show ?case by simp
next
  case (Cons y ys)
  show ?case
  proof (cases "score y - score x \<le> 0")
    case True
    have "\<forall>z\<in>set (y # ys). ranks x z"
    proof
      fix z assume z: "z \<in> set (y # ys)"
      then have "score z \<le> score y"
        using Cons.prems(1) by (auto simp: ranks_def)
      then have "score z \<le> score x" using True by simp
      moreover have "idx x < idx z" using Cons.prems(2) z by blast
      ultimately show "ranks x z" by (auto simp: ranks_def)
    qed
    then show ?thesis using True Cons.prems(1) by simp
  next
    case False
    then have "ranks y x" by (simp add: ranks_def)
    moreover have "sorted_wrt ranks (insertSorted (\<lambda>a b. score b - score a) x ys)"
      using Cons by simp
    ultimately show ?thesis using False Cons.prems(1)
      by (auto simp: insertSorted_set)
  qed
qed

lemma js_sort_Nil: "js_sort cmp [] = []"
  by (simp add: js_sort_def)

lemma js_sort_set: "set (js_sort cmp xs) = set xs"
  by (induction xs) (auto simp: js_sort_def insertSorted_set)

lemma insertSorted_length: "length (insertSorted cmp x ys) = Suc (length ys)"
  by (induction ys) auto

lemma js_sort_length: "length (js_sort cmp xs) = length xs"
  by (induction xs) (auto simp: js_sort_def insertSorted_length)

lemma js_sort_ranks:
  assumes "sorted_wrt (\<lambda>a b. idx a < idx b) xs"
  shows "sorted_wrt ranks (js_sort (\<lambda>a b. score b - score a) xs)"
  using assms
proof (induction xs)
  case Nil
  then show ?case by (simp add: js_sort_def)
next
  case (Cons x xs)
  have "sorted_wrt ranks (js_sort (\<lambda>a b. score b - score a) xs)" using Cons by simp
  moreover have "\<forall>y\<in>set (js_sort (\<lambda>a b. score b - score a) xs). idx x < idx y"
    using Cons.prems by (simp add: js_sort_set)
  ultimately have "sorted_wrt ranks (insertSorted (\<lambda>a b. score b - score a) x (js_sort (\<lambda>a b. score b - score a) xs))"
    by (rule insertSorted_ranks)
  then show ?case by (simp add: js_sort_def)
qed

lemma js_sort_distinct: "distinct (map idx xs) \<Longrightarrow> distinct (map idx (js_sort cmp xs))"
proof (induction xs)
  case Nil
  then show ?case by (simp add: js_sort_def)
next
  case (Cons x xs)
  have d: "distinct (map idx ys) \<Longrightarrow> idx x \<notin> idx ` set ys
       \<Longrightarrow> distinct (map idx (insertSorted cmp x ys))" for ys
    by (induction ys) (auto simp: insertSorted_set)
  show ?case using Cons d[of "js_sort cmp xs"]
    by (simp add: js_sort_def[of cmp "x # xs"] js_sort_def[symmetric, of cmp xs] js_sort_set)
qed


lemma filter_take_subset: "set (filter P (take k xs)) \<subseteq> set xs"
  by (auto dest: in_set_takeD)

lemma distinct_map_filter_take:
  assumes "distinct (map f xs)"
  shows "distinct (map f (filter P (take k xs)))"
proof -
  have "distinct (take k (map f xs))" using assms by (rule distinct_take)
  then have "distinct (map f (take k xs))" by (simp add: take_map)
  then show ?thesis by (rule distinct_map_filter)
qed

lemma sorted_wrt_take_drop:
  assumes "sorted_wrt P xs" "a \<in> set (take k xs)" "b \<in> set (drop k xs)"
  shows "P a b"
proof -
  have "sorted_wrt P (take k xs @ drop k xs)" using assms(1) by simp
  then show ?thesis using assms(2,3) unfolding sorted_wrt_append by blast
qed

text \<open>
  Claim C5. For a count \<open>topK \<ge> 0\<close>, the result of retrieval is the list of answers of
  selected entries: these are distinct entries of the knowledge base with a positive score,
  at most \<open>topK\<close> of them, listed by descending score with equal scores in the order of
  the knowledge base; an entry left out has a non-positive score, or \<open>topK\<close> entries were
  selected and each of them ranks before it. With a knowledge base that failed to load the
  result is empty.
\<close>
theorem retrieve_returns_top_scores:
  assumes "0 \<le> topK"
  shows "(\<exists>sel. retrieveRelevantContext kb tf query topK = map (\<lambda>i. answer (kb ! i)) sel
       \<and> distinct sel
       \<and> (\<forall>i\<in>set sel. i < length kb \<and> tf query i > 0)
       \<and> length sel \<le> nat topK
       \<and> sorted_wrt (\<lambda>i j. tf query i > tf query j \<or> (tf query i = tf query j \<and> i < j)) sel
       \<and> (\<forall>j<length kb. j \<notin> set sel \<longrightarrow>
            tf query j \<le> 0
            \<or> (length sel = nat topK
               \<and> (\<forall>i\<in>set sel. tf query i > tf query j \<or> (tf query i = tf query j \<and> i < j)))))
    \<and> retrieveRelevantContext (loadKnowledgeBase None) tf query topK = []"
proof
  show "retrieveRelevantContext (loadKnowledgeBase None) tf query topK = []"
    by (simp add: loadKnowledgeBase_def retrieveRelevantContext_def)
next
  let ?R = "\<lambda>i j. tf query i > tf query j \<or> (tf query i = tf query j \<and> i < j)"
  let ?mk = "\<lambda>i. \<lparr>idx = i, score = tf query i\<rparr>"
  let ?scores = "map ?mk [0..<length kb]"
  let ?cmp = "\<lambda>a b. score b - score a"
  let ?sorted = "js_sort ?cmp ?scores"
  let ?k = "nat topK"
  let ?top = "filter (\<lambda>s. score s > 0) (take ?k ?sorted)"
  let ?sel = "map idx ?top"
  have res: "retrieveRelevantContext kb tf query topK = map (\<lambda>i. answer (kb ! i)) ?sel"
    using assms by (simp add: retrieveRelevantContext_def slice0_def Let_def comp_def js_sort_Nil)
  have elems: "s \<in> set ?sorted \<Longrightarrow> idx s < length kb \<and> score s = tf query (idx s)" for s
    by (auto simp: js_sort_set)
  have mem: "j < length kb \<Longrightarrow> ?mk j \<in> set ?sorted" for j
    by (simp add: js_sort_set)
  have "sorted_wrt (\<lambda>a b. idx a < idx b) ?scores"
    by (simp add: sorted_wrt_map)
  then have srt: "sorted_wrt ranks ?sorted" by (rule js_sort_ranks)
  have "distinct (map idx ?scores)" by (simp add: comp_def)
  then have dst: "distinct (map idx ?sorted)" by (rule js_sort_distinct)
  have topsub: "set ?top \<subseteq> set ?sorted" by (rule filter_take_subset)
  have d: "distinct ?sel" using dst by (rule distinct_map_filter_take)
  have pos: "\<forall>i\<in>set ?sel. i < length kb \<and> tf query i > 0"
  proof
    fix i assume "i \<in> set ?sel"
    then obtain s where s: "s \<in> set ?top" "i = idx s" by auto
    then have "s \<in> set ?sorted" "score s > 0" using topsub by auto
    then show "i < length kb \<and> tf query i > 0" using elems[of s] s(2) by simp
  qed
  have len: "length ?sel \<le> ?k"
    by (simp add: le_trans[OF length_filter_le])
  have "sorted_wrt ranks ?top"
    using srt by (simp add: sorted_wrt_filter sorted_wrt_take)
  then have "sorted_wrt (\<lambda>a b. ?R (idx a) (idx b)) ?top"
  proof (rule sorted_wrt_mono_rel[rotated])
    fix a b assume "a \<in> set ?top" "b \<in> set ?top" "ranks a b"
    then have "a \<in> set ?sorted" "b \<in> set ?sorted" "ranks a b" using topsub by blast+
    then show "?R (idx a) (idx b)"
      using elems[of a] elems[of b] by (simp add: ranks_def)
  qed
  then have ord: "sorted_wrt ?R ?sel" by (simp add: sorted_wrt_map)
  have rest: "\<forall>j<length kb. j \<notin> set ?sel \<longrightarrow>
      tf query j \<le> 0 \<or> (length ?sel = ?k \<and> (\<forall>i\<in>set ?sel. ?R i j))"
  proof (intro allI impI)
    fix j assume j: "j < length kb" "j \<notin> set ?sel"
    show "tf query j \<le> 0 \<or> (length ?sel = ?k \<and> (\<forall>i\<in>set ?sel. ?R i j))"
    proof (cases "tf query j \<le> 0")
      case True
      then show ?thesis by simp
    next
      case False
      have "?mk j \<notin> set ?top" using j(2) by force
      then have "?mk j \<notin> set (take ?k ?sorted)" using False by simp
      moreover have "?mk j \<in> set (take ?k ?sorted) \<union> set (drop ?k ?sorted)"
        using mem[OF j(1)] by (metis append_take_drop_id set_append)
      ultimately have dr: "?mk j \<in> set (drop ?k ?sorted)" by blast
      then have "drop ?k ?sorted \<noteq> []" by auto
      then have lk: "length (take ?k ?sorted) = ?k" by simp
      have above: "a \<in> set (take ?k ?sorted) \<Longrightarrow> ranks a (?mk j)" for a
        using sorted_wrt_take_drop[OF srt _ dr] by blast
      have allpos: "\<forall>a\<in>set (take ?k ?sorted). score a > 0"
      proof
        fix a assume "a \<in> set (take ?k ?sorted)"
        then have "ranks a (?mk j)" by (rule above)
        then show "score a > 0" using False by (auto simp: ranks_def)
      qed
      then have eq: "?top = take ?k ?sorted" by simp
      have "\<forall>i\<in>set ?sel. ?R i j"
      proof
        fix i assume "i \<in> set ?sel"
        then obtain a where a: "a \<in> set (take ?k ?sorted)" "i = idx a" by auto
        then have "ranks a (?mk j)" using above by blast
        moreover have "a \<in> set ?sorted" using a(1) by (rule in_set_takeD)
        then have "score a = tf query (idx a)" using elems[of a] by simp
        ultimately show "?R i j" using a(2) by (simp add: ranks_def)
      qed
      moreover have "length ?sel = ?k" using eq lk by simp
      ultimately show ?thesis by blast
    qed
  qed
  show "\<exists>sel. retrieveRelevantContext kb tf query topK = map (\<lambda>i. answer (kb ! i)) sel
       \<and> distinct sel
       \<and> (\<forall>i\<in>set sel. i < length kb \<and> tf query i > 0)
       \<and> length sel \<le> nat topK
       \<and> sorted_wrt ?R sel
       \<and> (\<forall>j<length kb. j \<notin> set sel \<longrightarrow>
            tf query j \<le> 0 \<or> (length sel = nat topK \<and> (\<forall>i\<in>set sel. ?R i j)))"
    using res d pos len ord rest by (intro exI[of _ ?sel]) (simp only: simp_thms)
qed

theorem retrieve_returns_top_scores_witness:
  "retrieveRelevantContext exampleEntries exampleMeasure (str ''yako'') 3
     = [str ''Llama 3.'', str ''A student.'', str ''3002.'']
   \<and> retrieveRelevantContext exampleEntries exampleMeasure (str ''yako'') 1 = [str ''Llama 3.'']
   \<and> retrieveRelevantContext (loadKnowledgeBase None) exampleMeasure (str ''yako'') 3 = []"
proof -
  have 1: "retrieveRelevantContext exampleEntries exampleMeasure (str ''yako'') 3
     = [str ''Llama 3.'', str ''A student.'', str ''3002.'']"
    by (simp add: retrieveRelevantContext_def exampleEntries_def exampleMeasure_def slice0_def
        js_sort_def upt_rec[of 0] upt_rec[of 1] upt_rec[of 2] upt_rec[of 3])
  have 2: "retrieveRelevantContext exampleEntries exampleMeasure (str ''yako'') 1 = [str ''Llama 3.'']"
    by (simp add: retrieveRelevantContext_def exampleEntries_def exampleMeasure_def slice0_def
        js_sort_def upt_rec[of 0] upt_rec[of 1] upt_rec[of 2] upt_rec[of 3])
  have "(0::int) \<le> 3" by simp
  from retrieve_returns_top_scores[OF this, of exampleEntries exampleMeasure "str ''yako''"]
  have "retrieveRelevantContext (loadKnowledgeBase None) exampleMeasure (str ''yako'') 3 = []"
    by blast
  with 1 2 show ?thesis by blast
qed


section \<open>Properties of the matcher\<close>

lemma step1_advances:
  assumes "st' \<in> set (step1 P st)" "\<And>c. P c \<Longrightarrow> mayConsume ic r c"
  shows "advances ic r st st'"
proof -
  from assms(1) obtain c cs where c: "rest st = c # cs" "P c"
    "st' = st\<lparr>pos := Suc (pos st), rest := cs\<rparr>"
    by (cases "rest st") (auto simp: step1_def split: if_splits)
  have "rest st = [c] @ rest st' \<and> pos st' = pos st + length [c] \<and> (\<forall>d\<in>set [c]. mayConsume ic r d)"
    using c assms(2) by simp
  moreover have "caps st' = [] @ caps st \<and> fst ` set [] \<subseteq> groups r"
    using c by simp
  ultimately show ?thesis unfolding advances_def by blast
qed

lemma advances_trans:
  assumes "advances ic r1 st mid" "advances ic r2 mid st'"
    and "\<And>c. mayConsume ic r1 c \<Longrightarrow> mayConsume ic r c"
    and "\<And>c. mayConsume ic r2 c \<Longrightarrow> mayConsume ic r c"
    and "groups r1 \<subseteq> groups r" "groups r2 \<subseteq> groups r"
  shows "advances ic r st st'"
proof -
  from assms(1) obtain w1 new1 where 1: "rest st = w1 @ rest mid" "pos mid = pos st + length w1"
    "\<forall>c\<in>set w1. mayConsume ic r1 c" "caps mid = new1 @ caps st" "fst ` set new1 \<subseteq> groups r1"
    unfolding advances_def by blast
  from assms(2) obtain w2 new2 where 2: "rest mid = w2 @ rest st'" "pos st' = pos mid + length w2"
    "\<forall>c\<in>set w2. mayConsume ic r2 c" "caps st' = new2 @ caps mid" "fst ` set new2 \<subseteq> groups r2"
    unfolding advances_def by blast
  have a: "rest st = (w1 @ w2) @ rest st'" "pos st' = pos st + length (w1 @ w2)"
    using 1 2 by simp_all
  have b: "\<forall>c\<in>set (w1 @ w2). mayConsume ic r c" using 1(3) 2(3) assms(3,4) by auto
  have c: "caps st' = (new2 @ new1) @ caps st" using 1 2 by simp
  have d: "fst ` set (new2 @ new1) \<subseteq> groups r" using 1(5) 2(5) assms(5,6) by auto
  show ?thesis unfolding advances_def using a b c d by blast
qed

lemma advances_mono:
  assumes "advances ic r1 st st'"
    and "\<And>c. mayConsume ic r1 c \<Longrightarrow> mayConsume ic r c"
    and "groups r1 \<subseteq> groups r"
  shows "advances ic r st st'"
  using assms unfolding advances_def by (meson order_trans)

lemma advances_refl: "advances ic r st st"
  unfolding advances_def by (intro conjI exI[of _ "[]"]) simp_all

lemma rmatch_sound: "st' \<in> set (rmatch ic r st) \<Longrightarrow> advances ic r st st'"
proof (induction ic r st arbitrary: st' rule: rmatch.induct)
  case (1 ic st)
  then show ?case by (simp add: advances_refl)
next
  case (2 ic p st)
  then show ?case by (auto intro: step1_advances)
next
  case (3 ic st)
  then show ?case by (auto intro: step1_advances)
next
  case (4 ic st)
  then show ?case by (auto intro: step1_advances)
next
  case (5 ic st)
  then show ?case by (auto intro: step1_advances)
next
  case (6 ic st)
  then show ?case by (simp add: advances_refl split: if_splits)
next
  case (7 ic st)
  then show ?case by (simp add: advances_refl split: if_splits)
next
  case (8 ic r1 r2 st)
  from 8(3) obtain mid where mid: "mid \<in> set (rmatch ic r1 st)" "st' \<in> set (rmatch ic r2 mid)"
    by auto
  have "advances ic r1 st mid" using 8(1) mid(1) by blast
  moreover have "advances ic r2 mid st'" using 8(2) mid by blast
  ultimately show ?case by (rule advances_trans) auto
next
  case (9 ic r1 r2 st)
  from 9(3) consider "st' \<in> set (rmatch ic r1 st)" | "st' \<in> set (rmatch ic r2 st)" by auto
  then show ?case
  proof cases
    case 1
    then have "advances ic r1 st st'" using 9(1) by blast
    then show ?thesis by (rule advances_mono) auto
  next
    case 2
    then have "advances ic r2 st st'" using 9(2) by blast
    then show ?thesis by (rule advances_mono) auto
  qed
next
  case (10 ic r st)
  from 10(3) consider "st' = st"
    | mid where "mid \<in> set (rmatch ic r st)" "length (rest mid) < length (rest st)"
        "st' \<in> set (rmatch ic (Star r) mid)"
    by (subst (asm) rmatch.simps(10)) auto
  then show ?case
  proof cases
    case 1
    then show ?thesis by (simp add: advances_refl)
  next
    case 2
    have "advances ic r st mid" using 10(1) 2(1) by blast
    moreover have "advances ic (Star r) mid st'" using 10(2) 2 by simp
    ultimately show ?thesis by (rule advances_trans) auto
  qed
next
  case (11 ic n r st)
  from 11(2) obtain st0 where st0: "st0 \<in> set (rmatch ic r st)"
    "st' = st0\<lparr>caps := (n, take (pos st0 - pos st) (rest st)) # caps st0\<rparr>"
    by auto
  have "advances ic r st st0" using 11(1) st0(1) by blast
  then obtain w new where 1: "rest st = w @ rest st0" "pos st0 = pos st + length w"
    "\<forall>c\<in>set w. mayConsume ic r c" "caps st0 = new @ caps st" "fst ` set new \<subseteq> groups r"
    unfolding advances_def by blast
  have "caps st' = ((n, take (pos st0 - pos st) (rest st)) # new) @ caps st"
    using st0(2) 1(4) by simp
  moreover have "fst ` set ((n, take (pos st0 - pos st) (rest st)) # new) \<subseteq> groups (Group n r)"
    using 1(5) by auto
  ultimately show ?case
    unfolding advances_def using 1(1,2,3) st0(2)
    by (intro conjI exI[of _ w] exI[of _ "(n, take (pos st0 - pos st) (rest st)) # new"]) simp_all
qed

lemma list_all2_concat_map:
  assumes "list_all2 R xs ys"
    and "\<And>x y. x \<in> set xs \<Longrightarrow> R x y \<Longrightarrow> list_all2 R (f x) (g y)"
  shows "list_all2 R (concat (map f xs)) (concat (map g ys))"
  using assms
proof (induction rule: list_all2_induct)
  case Nil
  then show ?case by simp
next
  case (Cons x xs y ys)
  then show ?case by (auto intro!: list_all2_appendI)
qed

lemma list_all2_filter:
  assumes "list_all2 R xs ys" "\<And>x y. R x y \<Longrightarrow> P x = Q y"
  shows "list_all2 R (filter P xs) (filter Q ys)"
  using assms by (induction rule: list_all2_induct) auto

lemma step1_sameText: "sameText st st2 \<Longrightarrow> list_all2 sameText (step1 P st) (step1 P st2)"
  by (auto simp: step1_def sameText_def split: list.splits)

lemma rmatch_erase:
  "sameText st st2 \<Longrightarrow> list_all2 sameText (rmatch ic r st) (rmatch ic (erase r) st2)"
proof (induction ic r st arbitrary: st2 rule: rmatch.induct)
  case (8 ic r1 r2 st)
  have "list_all2 sameText (rmatch ic r1 st) (rmatch ic (erase r1) st2)"
    using 8(1)[OF 8(3)] .
  then have "list_all2 sameText (concat (map (rmatch ic r2) (rmatch ic r1 st)))
     (concat (map (rmatch ic (erase r2)) (rmatch ic (erase r1) st2)))"
    by (rule list_all2_concat_map) (use 8(2) in blast)
  then show ?case by simp
next
  case (9 ic r1 r2 st)
  then show ?case by (auto intro!: list_all2_appendI)
next
  case (10 ic r st)
  let ?P = "\<lambda>st'. length (rest st') < length (rest st)"
  let ?Q = "\<lambda>st'. length (rest st') < length (rest st2)"
  have "list_all2 sameText (rmatch ic r st) (rmatch ic (erase r) st2)"
    using 10(1)[OF 10(3)] .
  then have f: "list_all2 sameText (filter ?P (rmatch ic r st)) (filter ?Q (rmatch ic (erase r) st2))"
    by (rule list_all2_filter) (use 10(3) in \<open>auto simp: sameText_def\<close>)
  have "list_all2 sameText (concat (map (rmatch ic (Star r)) (filter ?P (rmatch ic r st))))
     (concat (map (rmatch ic (Star (erase r))) (filter ?Q (rmatch ic (erase r) st2))))"
    using f
  proof (rule list_all2_concat_map)
    fix x y assume "x \<in> set (filter ?P (rmatch ic r st))" "sameText x y"
    then show "list_all2 sameText (rmatch ic (Star r) x) (rmatch ic (Star (erase r)) y)"
      using 10(2)[of x y] by simp
  qed
  then show ?case using 10(3)
    by (simp add: rmatch.simps(10)[of ic r st] rmatch.simps(10)[of ic "erase r" st2]
        list_all2_appendI)
next
  case (11 ic n r st)
  have "list_all2 sameText (rmatch ic r st) (rmatch ic (erase r) st2)"
    using 11(1)[OF 11(2)] .
  then have "list_all2 sameText
     (map (\<lambda>st'. st'\<lparr>caps := (n, take (pos st' - pos st) (rest st)) # caps st'\<rparr>) (rmatch ic r st))
     (rmatch ic (erase r) st2)"
    unfolding list_all2_map1 by (rule list_all2_mono) (simp add: sameText_def)
  then show ?case by simp
next
  case (1 ic st)
  then show ?case by simp
next
  case (2 ic p st)
  then show ?case by (simp add: step1_sameText)
next
  case (3 ic st)
  then show ?case by (simp add: step1_sameText)
next
  case (4 ic st)
  then show ?case by (simp add: step1_sameText)
next
  case (5 ic st)
  then show ?case by (simp add: step1_sameText)
next
  case (6 ic st)
  then show ?case by (simp add: sameText_def)
next
  case (7 ic st)
  then show ?case by (simp add: sameText_def)
qed

lemma rmatch_erase_Nil:
  "rmatch ic (erase r) \<lparr>pos = i, rest = s, caps = c\<rparr> = []
     \<longleftrightarrow> rmatch ic r \<lparr>pos = i, rest = s, caps = c\<rparr> = []"
  using rmatch_erase[of "\<lparr>pos = i, rest = s, caps = c\<rparr>" "\<lparr>pos = i, rest = s, caps = c\<rparr>" ic r]
  by (auto simp: sameText_def dest: list_all2_lengthD)

lemma search_erase_None: "search ic (erase r) i s = None \<longleftrightarrow> search ic r i s = None"
proof (induction s arbitrary: i)
  case Nil
  show ?case using rmatch_erase_Nil[of ic r i "[]" "[]"]
    by (auto split: list.splits)
next
  case (Cons c s)
  show ?case using rmatch_erase_Nil[of ic r i "c # s" "[]"] Cons[of "Suc i"]
    by (auto split: list.splits)
qed

lemma search_Some:
  "search ic r i s = Some (j, m) \<Longrightarrow>
     \<exists>k\<le>length s. j = i + k \<and> m \<in> set (rmatch ic r \<lparr>pos = j, rest = drop k s, caps = []\<rparr>)"
proof (induction s arbitrary: i)
  case Nil
  then show ?case by (auto split: list.splits)
next
  case (Cons c s)
  show ?case
  proof (cases "rmatch ic r \<lparr>pos = i, rest = c # s, caps = []\<rparr>")
    case Nil
    then have "search ic r (Suc i) s = Some (j, m)" using Cons.prems by simp
    from Cons.IH[OF this] obtain k where "k \<le> length s" "j = Suc i + k"
      "m \<in> set (rmatch ic r \<lparr>pos = j, rest = drop k s, caps = []\<rparr>)" by blast
    then show ?thesis by (intro exI[of _ "Suc k"]) simp
  next
    case (Cons m' ms)
    then have "j = i" "m = m'" using Cons.prems by simp_all
    then show ?thesis using Cons by (intro exI[of _ 0]) simp
  qed
qed

lemma search_None_iff:
  "search ic r i s = None
     \<longleftrightarrow> (\<forall>k\<le>length s. rmatch ic r \<lparr>pos = i + k, rest = drop k s, caps = []\<rparr> = [])"
proof (induction s arbitrary: i)
  case Nil
  then show ?case by (auto split: list.splits)
next
  case (Cons c s)
  have "(\<forall>k\<le>length (c # s). rmatch ic r \<lparr>pos = i + k, rest = drop k (c # s), caps = []\<rparr> = [])
     \<longleftrightarrow> rmatch ic r \<lparr>pos = i, rest = c # s, caps = []\<rparr> = []
        \<and> (\<forall>k\<le>length s. rmatch ic r \<lparr>pos = Suc i + k, rest = drop k s, caps = []\<rparr> = [])"
    (is "?L \<longleftrightarrow> ?A \<and> ?B")
  proof
    assume l: ?L
    have ?A using l[rule_format, of 0] by simp
    moreover have ?B
    proof (intro allI impI)
      fix k assume "k \<le> length s"
      then show "rmatch ic r \<lparr>pos = Suc i + k, rest = drop k s, caps = []\<rparr> = []"
        using l[rule_format, of "Suc k"] by simp
    qed
    ultimately show "?A \<and> ?B" ..
  next
    assume ab: "?A \<and> ?B"
    show ?L
    proof (intro allI impI)
      fix k assume "k \<le> length (c # s)"
      then show "rmatch ic r \<lparr>pos = i + k, rest = drop k (c # s), caps = []\<rparr> = []"
        using ab by (cases k) auto
    qed
  qed
  then show ?case using Cons[of "Suc i"] by (auto split: list.splits)
qed

lemma needs_fails:
  "needs a r \<Longrightarrow> \<forall>c\<in>set (rest st). \<not> mayConsume ic a c \<Longrightarrow> rmatch ic r st = []"
proof (induction ic r st rule: rmatch.induct)
  case (8 ic r1 r2 st)
  show ?case
  proof (cases "needs a r1")
    case True
    then show ?thesis using 8 by simp
  next
    case False
    then have n2: "needs a r2" using 8(3) by simp
    have "rmatch ic r2 mid = []" if "mid \<in> set (rmatch ic r1 st)" for mid
    proof -
      from rmatch_sound[OF that] obtain w where "rest st = w @ rest mid"
        unfolding advances_def by blast
      then have "\<forall>c\<in>set (rest mid). \<not> mayConsume ic a c" using 8(4) by auto
      then show ?thesis using 8(2)[OF that n2] by blast
    qed
    then show ?thesis by simp
  qed
next
  case (2 ic p st)
  then show ?case by (auto simp: step1_def split: list.splits)
next
  case (3 ic st)
  then show ?case by (auto simp: step1_def split: list.splits)
next
  case (4 ic st)
  then show ?case by (auto simp: step1_def split: list.splits)
next
  case (5 ic st)
  then show ?case by (auto simp: step1_def split: list.splits)
next
  case (9 ic r1 r2 st)
  then show ?case by simp
next
  case (11 ic n r st)
  then show ?case by simp
qed simp_all

lemma needs_no_match:
  assumes "needs a r" "\<forall>c\<in>set s. \<not> mayConsume ic a c"
  shows "search ic r i s = None"
  unfolding search_None_iff
proof (intro allI impI)
  fix k assume "k \<le> length s"
  have "\<forall>c\<in>set (drop k s). \<not> mayConsume ic a c"
    using assms(2) by (meson in_set_dropD)
  then show "rmatch ic r \<lparr>pos = i + k, rest = drop k s, caps = []\<rparr> = []"
    using needs_fails[OF assms(1)] by simp
qed

lemma search_Alt_None:
  "search ic a i s = None \<Longrightarrow> search ic b i s = None \<Longrightarrow> search ic (Alt a b) i s = None"
  unfolding search_None_iff by simp


section \<open>The Easter-egg rule\<close>

lemma trim_decomp:
  "\<exists>lead trail. s = lead @ trim s @ trail \<and> (\<forall>c\<in>set (lead @ trail). isSpace c)"
proof -
  let ?d = "dropWhile isSpace s"
  have 1: "s = takeWhile isSpace s @ ?d" by simp
  have "rev (takeWhile isSpace (rev ?d) @ dropWhile isSpace (rev ?d)) = rev (rev ?d)"
    by (simp only: takeWhile_dropWhile_id)
  then have 2: "?d = trim s @ rev (takeWhile isSpace (rev ?d))"
    by (simp only: rev_append rev_rev_ident trim_def)
  have "s = takeWhile isSpace s @ trim s @ rev (takeWhile isSpace (rev ?d))"
    using 1 2 by (metis)
  moreover have "\<forall>c\<in>set (takeWhile isSpace s @ rev (takeWhile isSpace (rev ?d))). isSpace c"
    by (auto dest: set_takeWhileD)
  ultimately show ?thesis by blast
qed

lemma isSpace_lowerUnit: "isSpace (lowerUnit c) = isSpace c"
  by (auto simp: isSpace_def isWhiteSpace_def isLineTerminator_def lowerUnit_def)

lemma lowerUnit_ascii: "lowerUnit c < 0x80 \<Longrightarrow> c < 0x80"
  by (simp add: lowerUnit_def split: if_splits)

lemma lowerFrom_plain:
  "\<forall>c\<in>set cs. c < 0x80 \<or> isSpace c \<Longrightarrow> lowerFrom tbl s i cs = map lowerUnit cs"
  by (induction cs arbitrary: i) (simp_all add: lowerAt_def)

text \<open>On a string of ASCII characters and white space, lower-casing moves the letters
  \<^verbatim>\<open>A\<close> to \<^verbatim>\<open>Z\<close> and nothing else, whatever the tables of the host.\<close>

lemma toLowerCase_plain:
  "\<forall>c\<in>set s. c < 0x80 \<or> isSpace c \<Longrightarrow> toLowerCase tbl s = map lowerUnit s"
  unfolding toLowerCase_def by (rule lowerFrom_plain)

lemma chrEq_lowerUnit:
  "0x61 \<le> p \<Longrightarrow> p \<le> 0x7A \<Longrightarrow> lowerUnit c = p \<Longrightarrow> chrEq True p c"
  by (auto simp: chrEq_def canonicalize_def lowerUnit_def split: if_splits)

lemma lit_Nil: "lit [] = Emp"
  by (simp add: lit_def seqs_def)

lemma lit_Cons: "lit (c # s) = Seq (Chr (of_char c)) (lit s)"
  by (simp add: lit_def seqs_def)

lemma seqs_Cons: "seqs (r # rs) = Seq r (seqs rs)"
  by (simp add: seqs_def)

lemma seqs_Nil: "seqs [] = Emp"
  by (simp add: seqs_def)

lemma seq_mem:
  "mid \<in> set (rmatch ic r1 st) \<Longrightarrow> st' \<in> set (rmatch ic r2 mid)
    \<Longrightarrow> st' \<in> set (rmatch ic (Seq r1 r2) st)"
  by auto

lemma lit_match:
  "list_all2 (chrEq ic) (map of_char s) u \<Longrightarrow> rest st = u @ cs
    \<Longrightarrow> st\<lparr>pos := pos st + length u, rest := cs\<rparr> \<in> set (rmatch ic (lit s) st)"
proof (induction s arbitrary: u st)
  case Nil
  then show ?case by (simp add: lit_Nil)
next
  case (Cons a s)
  from Cons.prems(1) obtain c u' where u: "u = c # u'" "chrEq ic (of_char a) c"
    "list_all2 (chrEq ic) (map of_char s) u'"
    by (auto simp: list_all2_Cons1)
  let ?st1 = "st\<lparr>pos := Suc (pos st), rest := u' @ cs\<rparr>"
  have 1: "?st1 \<in> set (rmatch ic (Chr (of_char a)) st)"
    using u Cons.prems(2) by (simp add: step1_def)
  have "?st1\<lparr>pos := pos ?st1 + length u', rest := cs\<rparr> \<in> set (rmatch ic (lit s) ?st1)"
    by (rule Cons.IH[OF u(3)]) simp
  then have 2: "st\<lparr>pos := pos st + length u, rest := cs\<rparr> \<in> set (rmatch ic (lit s) ?st1)"
    using u(1) by simp
  show ?case unfolding lit_Cons using 1 2 by (rule seq_mem)
qed

lemma star_space_match:
  "\<forall>c\<in>set ws. isSpace c \<Longrightarrow> rest st = ws @ cs
    \<Longrightarrow> st\<lparr>pos := pos st + length ws, rest := cs\<rparr> \<in> set (rmatch ic (Star Space) st)"
proof (induction ws arbitrary: st)
  case Nil
  then have "st\<lparr>pos := pos st + length [], rest := cs\<rparr> = st" by simp
  then show ?case by (simp add: rmatch.simps(10)[of ic Space st])
next
  case (Cons c ws)
  let ?st1 = "st\<lparr>pos := Suc (pos st), rest := ws @ cs\<rparr>"
  have 1: "step1 isSpace st = [?st1]"
    using Cons.prems by (simp add: step1_def)
  have "?st1\<lparr>pos := pos ?st1 + length ws, rest := cs\<rparr> \<in> set (rmatch ic (Star Space) ?st1)"
    by (rule Cons.IH) (use Cons.prems in simp_all)
  then have 2: "st\<lparr>pos := pos st + length (c # ws), rest := cs\<rparr> \<in> set (rmatch ic (Star Space) ?st1)"
    by simp
  have "length (rest ?st1) < length (rest st)" using Cons.prems(2) by simp
  then show ?case
    using 2 by (simp add: rmatch.simps(10)[of ic Space st] 1)
qed

lemma search_found:
  "rmatch ic r \<lparr>pos = i, rest = s, caps = []\<rparr> \<noteq> [] \<Longrightarrow> search ic r i s \<noteq> None"
  by (cases s) (auto split: list.splits)

lemma lowered_literal:
  "map lowerUnit u = map of_char s \<Longrightarrow> \<forall>c\<in>set s. 0x61 \<le> (of_char c :: nat) \<and> (of_char c :: nat) \<le> 0x7A
    \<Longrightarrow> list_all2 (chrEq True) (map of_char s) u"
proof (induction s arbitrary: u)
  case Nil
  then show ?case by simp
next
  case (Cons a s)
  from Cons.prems(1) obtain c u' where u: "u = c # u'" "lowerUnit c = of_char a"
    "map lowerUnit u' = map of_char s"
    by (cases u) auto
  have "chrEq True (of_char a) c"
    using Cons.prems(2) u(2) by (intro chrEq_lowerUnit) auto
  moreover have "list_all2 (chrEq True) (map of_char s) u'"
    using Cons.IH[OF u(3)] Cons.prems(2) by simp
  ultimately show ?case using u(1) by simp
qed

lemma lowered_space:
  assumes "map lowerUnit v = w" "\<forall>c\<in>set w. isSpace c"
  shows "\<forall>c\<in>set v. isSpace c"
proof
  fix c assume "c \<in> set v"
  then have "lowerUnit c \<in> set w" using assms(1) by auto
  then show "isSpace c" using assms(2) isSpace_lowerUnit by blast
qed

lemma map_eq_appendD:
  "map f xs = ys @ zs \<Longrightarrow> \<exists>us vs. xs = us @ vs \<and> map f us = ys \<and> map f vs = zs"
  by (auto simp: map_eq_append_conv)

lemma suhaira_matches:
  assumes "map lowerUnit t = str ''i'' @ w1 @ str ''am'' @ w2 @ str ''suhaira''"
    and "\<forall>c\<in>set (w1 @ w2). isSpace c"
  shows "regex_test True re_suhaira t"
proof -
  have "map lowerUnit t = str ''i'' @ (w1 @ str ''am'' @ w2 @ str ''suhaira'')"
    using assms(1) by simp
  from map_eq_appendD[OF this] obtain u1 r1 where 1: "t = u1 @ r1" "map lowerUnit u1 = str ''i''"
    "map lowerUnit r1 = w1 @ (str ''am'' @ w2 @ str ''suhaira'')"
    by blast
  from map_eq_appendD[OF 1(3)] obtain v1 r2 where 2: "r1 = v1 @ r2" "map lowerUnit v1 = w1"
    "map lowerUnit r2 = str ''am'' @ (w2 @ str ''suhaira'')"
    by blast
  from map_eq_appendD[OF 2(3)] obtain u2 r3 where 3: "r2 = u2 @ r3" "map lowerUnit u2 = str ''am''"
    "map lowerUnit r3 = w2 @ str ''suhaira''"
    by blast
  from map_eq_appendD[OF 3(3)] obtain v2 u3 where 4: "r3 = v2 @ u3" "map lowerUnit v2 = w2"
    "map lowerUnit u3 = str ''suhaira''"
    by blast
  have l1: "list_all2 (chrEq True) (map of_char ''i'') u1"
    using 1(2) by (intro lowered_literal) (simp_all add: str_def)
  have l2: "list_all2 (chrEq True) (map of_char ''am'') u2"
    using 3(2) by (intro lowered_literal) (simp_all add: str_def)
  have l3: "list_all2 (chrEq True) (map of_char ''suhaira'') u3"
    using 4(3) by (intro lowered_literal) (simp_all add: str_def)
  have s1: "\<forall>c\<in>set v1. isSpace c" using lowered_space[OF 2(2)] assms(2) by simp
  have s2: "\<forall>c\<in>set v2. isSpace c" using lowered_space[OF 4(2)] assms(2) by simp
  let ?st0 = "\<lparr>pos = 0, rest = t, caps = []\<rparr>"
  let ?st1 = "?st0\<lparr>pos := pos ?st0 + length u1, rest := v1 @ u2 @ v2 @ u3\<rparr>"
  let ?st2 = "?st1\<lparr>pos := pos ?st1 + length v1, rest := u2 @ v2 @ u3\<rparr>"
  let ?st3 = "?st2\<lparr>pos := pos ?st2 + length u2, rest := v2 @ u3\<rparr>"
  let ?st4 = "?st3\<lparr>pos := pos ?st3 + length v2, rest := u3\<rparr>"
  let ?st5 = "?st4\<lparr>pos := pos ?st4 + length u3, rest := []\<rparr>"
  have t: "t = u1 @ v1 @ u2 @ v2 @ u3" using 1(1) 2(1) 3(1) 4(1) by simp
  have m0: "?st0 \<in> set (rmatch True Bol ?st0)" by simp
  have m1: "?st1 \<in> set (rmatch True (lit ''i'') ?st0)"
    by (rule lit_match[OF l1]) (simp add: t)
  have m2: "?st2 \<in> set (rmatch True (Star Space) ?st1)"
    by (rule star_space_match[OF s1]) simp
  have m3: "?st3 \<in> set (rmatch True (lit ''am'') ?st2)"
    by (rule lit_match[OF l2]) simp
  have m4: "?st4 \<in> set (rmatch True (Star Space) ?st3)"
    by (rule star_space_match[OF s2]) simp
  have m5: "?st5 \<in> set (rmatch True (lit ''suhaira'') ?st4)"
    by (rule lit_match[OF l3]) simp
  have m6: "?st5 \<in> set (rmatch True (Seq Eol Emp) ?st5)" by simp
  have "?st5 \<in> set (rmatch True re_suhaira ?st0)"
    unfolding re_suhaira_def seqs_Cons seqs_Nil
    by (rule seq_mem[OF m0], rule seq_mem[OF m1], rule seq_mem[OF m2], rule seq_mem[OF m3],
        rule seq_mem[OF m4], rule seq_mem[OF m5], rule m6)
  then have "rmatch True re_suhaira ?st0 \<noteq> []" by auto
  then show ?thesis unfolding regex_test_def by (rule search_found)
qed

lemma needs_rules:
  "needs (Chr 0x32) re_two_plus_two"
  "needs (Chr 0x77) (seqs [lit ''what'', Star Dot, lit ''time''])"
  "needs (Chr 0x63) (lit ''current time'')"
  "needs (Chr 0x77) (seqs [lit ''what'', Star Dot, lit ''date''])"
  "needs (Chr 0x74) (seqs [lit ''today'', Star Dot, lit ''date''])"
  "needs (Chr 0x63) (lit ''current date'')"
  "needs Digit (re_arith_test opr)"
  "needs (Chr 0x77) re_who"
  "needs (Chr 0x6F) re_how_work"
  "needs (Chr 0x74) re_thank"
  by (simp_all add: re_two_plus_two_def re_arith_test_def re_who_def re_how_work_def re_thank_def
      seqs_def lit_def Opt_def Plus_def)

lemma isSpace_canonicalize: "isSpace c \<Longrightarrow> canonicalize c = c"
  by (auto simp: canonicalize_def isSpace_def isWhiteSpace_def isLineTerminator_def)

lemma isSpace_not_digit: "isSpace c \<Longrightarrow> \<not> isDigit c"
  by (auto simp: isDigit_def isSpace_def isWhiteSpace_def isLineTerminator_def)

lemma suhairaChar_canonicalize:
  assumes "suhairaChar c"
  shows "isSpace (canonicalize c) \<or> canonicalize c \<in> {0x49, 0x41, 0x4D, 0x53, 0x55, 0x48, 0x52}"
proof (cases "isSpace c")
  case True
  then show ?thesis by (simp add: isSpace_canonicalize)
next
  case False
  then have "c \<in> set (str ''iamsuhr'')" using assms by (simp add: suhairaChar_def)
  then show ?thesis by (auto simp: canonicalize_def str_def)
qed

lemma not_space_letters:
  "\<not> isSpace 0x32" "\<not> isSpace 0x57" "\<not> isSpace 0x43" "\<not> isSpace 0x54" "\<not> isSpace 0x4F"
  by (simp_all add: isSpace_def isWhiteSpace_def isLineTerminator_def)

lemma suhairaChar_rejects:
  assumes "suhairaChar c"
  shows "\<not> mayConsume True (Chr 0x32) c" "\<not> mayConsume True (Chr 0x77) c"
    "\<not> mayConsume True (Chr 0x63) c" "\<not> mayConsume True (Chr 0x74) c"
    "\<not> mayConsume False Digit c" "\<not> mayConsume True (Chr 0x6F) c"
proof -
  note c = suhairaChar_canonicalize[OF assms]
  have p: "canonicalize 0x32 = 0x32" "canonicalize 0x77 = 0x57" "canonicalize 0x63 = 0x43"
    "canonicalize 0x74 = 0x54" "canonicalize 0x6F = 0x4F"
    by (simp_all add: canonicalize_def)
  show "\<not> mayConsume True (Chr 0x32) c"
    using c not_space_letters(1) by (auto simp: chrEq_def p(1))
  show "\<not> mayConsume True (Chr 0x77) c"
    using c not_space_letters(2) by (auto simp: chrEq_def p(2))
  show "\<not> mayConsume True (Chr 0x63) c"
    using c not_space_letters(3) by (auto simp: chrEq_def p(3))
  show "\<not> mayConsume True (Chr 0x74) c"
    using c not_space_letters(4) by (auto simp: chrEq_def p(4))
  show "\<not> mayConsume True (Chr 0x6F) c"
    using c not_space_letters(5) by (auto simp: chrEq_def p(5))
  show "\<not> mayConsume False Digit c"
  proof (cases "isSpace c")
    case True
    then show ?thesis by (simp add: isSpace_not_digit)
  next
    case False
    then have "c \<in> set (str ''iamsuhr'')" using assms by (simp add: suhairaChar_def)
    then show ?thesis by (auto simp: isDigit_def str_def)
  qed
qed

lemma needs_no_test:
  assumes "needs a r" "\<forall>c\<in>set s. \<not> mayConsume ic a c"
  shows "\<not> regex_test ic r s"
proof -
  have "search ic r 0 s = None" using assms by (rule needs_no_match)
  then show ?thesis unfolding regex_test_def by blast
qed

lemma Alt_no_test:
  assumes "\<not> regex_test ic a s" "\<not> regex_test ic b s"
  shows "\<not> regex_test ic (Alt a b) s"
proof -
  have "search ic a 0 s = None" "search ic b 0 s = None"
    using assms unfolding regex_test_def by blast+
  then have "search ic (Alt a b) 0 s = None" by (rule search_Alt_None)
  then show ?thesis unfolding regex_test_def by blast
qed

lemma all_rejected:
  assumes "\<forall>c\<in>set s. P c" "\<And>c. P c \<Longrightarrow> \<not> Q c"
  shows "\<forall>c\<in>set s. \<not> Q c"
  using assms by blast

lemma suhaira_no_earlier_rule:
  assumes "\<forall>c\<in>set s. suhairaChar c"
  shows "\<not> regex_test True re_two_plus_two s" "\<not> regex_test True re_time s"
    "\<not> regex_test True re_date s" "\<not> regex_test False (re_arith_test opr) s"
    "\<not> regex_test True re_who s" "\<not> regex_test True re_how_work s"
    "\<not> regex_test True re_thank s"
proof -
  have c2: "\<forall>c\<in>set s. \<not> mayConsume True (Chr 0x32) c"
    by (rule all_rejected[OF assms suhairaChar_rejects(1)])
  have cw: "\<forall>c\<in>set s. \<not> mayConsume True (Chr 0x77) c"
    by (rule all_rejected[OF assms suhairaChar_rejects(2)])
  have cc: "\<forall>c\<in>set s. \<not> mayConsume True (Chr 0x63) c"
    by (rule all_rejected[OF assms suhairaChar_rejects(3)])
  have ct: "\<forall>c\<in>set s. \<not> mayConsume True (Chr 0x74) c"
    by (rule all_rejected[OF assms suhairaChar_rejects(4)])
  have cd: "\<forall>c\<in>set s. \<not> mayConsume False Digit c"
    by (rule all_rejected[OF assms suhairaChar_rejects(5)])
  have co: "\<forall>c\<in>set s. \<not> mayConsume True (Chr 0x6F) c"
    by (rule all_rejected[OF assms suhairaChar_rejects(6)])
  show "\<not> regex_test True re_two_plus_two s"
    by (rule needs_no_test[OF needs_rules(1) c2])
  show "\<not> regex_test True re_time s"
    unfolding re_time_def
    by (rule Alt_no_test[OF needs_no_test[OF needs_rules(2) cw] needs_no_test[OF needs_rules(3) cc]])
  show "\<not> regex_test True re_date s"
    unfolding re_date_def
    by (rule Alt_no_test[OF needs_no_test[OF needs_rules(4) cw]
          Alt_no_test[OF needs_no_test[OF needs_rules(5) ct] needs_no_test[OF needs_rules(6) cc]]])
  show "\<not> regex_test False (re_arith_test opr) s"
    by (rule needs_no_test[OF needs_rules(7) cd])
  show "\<not> regex_test True re_who s"
    by (rule needs_no_test[OF needs_rules(8) cw])
  show "\<not> regex_test True re_how_work s"
    by (rule needs_no_test[OF needs_rules(9) co])
  show "\<not> regex_test True re_thank s"
    by (rule needs_no_test[OF needs_rules(10) ct])
qed

text \<open>
  Claim C8. A message that, trimmed and with its letters \<^verbatim>\<open>A\<close> to \<^verbatim>\<open>Z\<close> in
  lower case, reads "i", white space (possibly none), "am", white space (possibly none),
  "suhaira" and nothing else is answered with status 200 by the fixed Easter-egg reply, and
  the provider is not called. This is the literal "I am Suhaira" in any letter case, with
  any white space between the words and around the message. The rule compares the trimmed
  message itself under the \<^verbatim>\<open>i\<close> flag, which identifies an ASCII letter only with its
  other case; the case tables of the host play no part.
\<close>
theorem suhaira_easter_egg:
  assumes "bodyMessage req = JStr message"
    and "map lowerUnit (trim message) = str ''i'' @ w1 @ str ''am'' @ w2 @ str ''suhaira''"
    and "\<forall>c\<in>set (w1 @ w2). isSpace c"
  shows "sent (chatHandler cfg w store req) = Json200 (Some suhairaReply)
     \<and> outbound (chatHandler cfg w store req) = []"
proof -
  have egg: "regex_test True re_suhaira (trim message)"
    using assms(2,3) by (rule suhaira_matches)
  have ne: "trim message \<noteq> []"
    using assms(2) by (auto simp: str_def)
  from trim_decomp[of message] obtain lead trail where
    d: "message = lead @ trim message @ trail" "\<forall>c\<in>set (lead @ trail). isSpace c" by blast
  have low: "map lowerUnit message
      = map lowerUnit lead @ (str ''i'' @ w1 @ str ''am'' @ w2 @ str ''suhaira'') @ map lowerUnit trail"
    using assms(2) d(1) by (metis map_append)
  have sp: "\<forall>c\<in>set (map lowerUnit lead @ map lowerUnit trail). isSpace c"
    using d(2) isSpace_lowerUnit by auto
  have chars0: "\<forall>c\<in>set (map lowerUnit message). suhairaChar c"
    unfolding low using sp assms(3) by (auto simp: suhairaChar_def str_def)
  have plain: "\<forall>c\<in>set message. c < 0x80 \<or> isSpace c"
  proof
    fix c assume "c \<in> set message"
    then have "suhairaChar (lowerUnit c)" using chars0 by simp
    then have "lowerUnit c < 0x80 \<or> isSpace (lowerUnit c)"
      by (auto simp: suhairaChar_def str_def)
    then show "c < 0x80 \<or> isSpace c"
      using lowerUnit_ascii isSpace_lowerUnit by blast
  qed
  have chars: "\<forall>c\<in>set (toLowerCase (lowerTable w) message). suhairaChar c"
    using chars0 unfolding toLowerCase_plain[OF plain] .
  note no = suhaira_no_earlier_rule[OF chars]
  have g: "generateResponse cfg w message h = (Inr (Some suhairaReply), [])" for h
    using no egg by (simp add: generateResponse_def Let_def)
  show ?thesis
    using chatHandler_eq[OF assms(1) ne g] by simp
qed

theorem suhaira_easter_egg_witness:
  "sent (chatHandler exampleConfig exampleWorld Map.empty
      \<lparr>sessionHeader = None, bodyMessage = JStr (str ''  I am   SUHAIRA '')\<rparr>)
    = Json200 (Some suhairaReply)"
proof -
  let ?req = "\<lparr>sessionHeader = None, bodyMessage = JStr (str ''  I am   SUHAIRA '')\<rparr>"
  have b: "bodyMessage ?req = JStr (str ''  I am   SUHAIRA '')" by simp
  have l: "map lowerUnit (trim (str ''  I am   SUHAIRA ''))
      = str ''i'' @ str '' '' @ str ''am'' @ str ''   '' @ str ''suhaira''"
    by (simp add: regex_eval)
  have s: "\<forall>c\<in>set (str '' '' @ str ''   ''). isSpace c"
    by (simp add: str_def isSpace_def isWhiteSpace_def)
  from suhaira_easter_egg[where cfg = exampleConfig and w = exampleWorld and store = Map.empty,
      OF b l s]
  show ?thesis by (rule conjunct1)
qed


section \<open>The arithmetic rules\<close>

lemma erase_lit: "erase (lit s) = lit s"
  by (induction s) (simp_all add: lit_Nil lit_Cons)

lemma groups_lit: "groups (lit s) = {}"
  by (induction s) (simp_all add: lit_Nil lit_Cons)

lemma erase_re_arith: "erase (re_arith opr) = re_arith_test opr"
  by (simp add: re_arith_def re_arith_test_def seqs_def Plus_def erase_lit)

lemma advances_caps: "advances ic r st st' \<Longrightarrow> groups r = {} \<Longrightarrow> caps st' = caps st"
  unfolding advances_def by auto

lemma advances_text:
  "advances ic r st st' \<Longrightarrow>
     \<exists>w. rest st = w @ rest st' \<and> pos st' = pos st + length w \<and> (\<forall>c\<in>set w. mayConsume ic r c)"
  unfolding advances_def by blast

lemma seq_memD:
  "st' \<in> set (rmatch ic (Seq r1 r2) st)
    \<Longrightarrow> \<exists>mid. mid \<in> set (rmatch ic r1 st) \<and> st' \<in> set (rmatch ic r2 mid)"
  by auto

lemma plus_digit_group:
  assumes "st1 \<in> set (rmatch ic (Group n (Plus Digit)) st)"
  shows "\<exists>a. a \<noteq> [] \<and> (\<forall>c\<in>set a. isDigit c) \<and> rest st = a @ rest st1
     \<and> pos st1 = pos st + length a \<and> caps st1 = (n, a) # caps st"
proof -
  from assms obtain st' where st': "st' \<in> set (rmatch ic (Seq Digit (Star Digit)) st)"
    "st1 = st'\<lparr>caps := (n, take (pos st' - pos st) (rest st)) # caps st'\<rparr>"
    by (auto simp: Plus_def)
  from seq_memD[OF st'(1)] obtain mid where mid: "mid \<in> set (rmatch ic Digit st)"
    "st' \<in> set (rmatch ic (Star Digit) mid)" by blast
  from mid(1) obtain c where c: "rest st = c # rest mid" "isDigit c" "pos mid = Suc (pos st)"
    "caps mid = caps st"
    by (cases "rest st") (auto simp: step1_def split: if_splits)
  have adv: "advances ic (Star Digit) mid st'" using mid(2) by (rule rmatch_sound)
  from advances_text[OF adv] obtain w where w: "rest mid = w @ rest st'"
    "pos st' = pos mid + length w" "\<forall>c\<in>set w. mayConsume ic (Star Digit) c" by blast
  have caps: "caps st' = caps st" using advances_caps[OF adv] c(4) by simp
  let ?a = "c # w"
  have "take (pos st' - pos st) (rest st) = ?a" using c w by simp
  then have "caps st1 = (n, ?a) # caps st" using st'(2) caps by simp
  moreover have "rest st = ?a @ rest st1" using c(1) w(1) st'(2) by simp
  moreover have "pos st1 = pos st + length ?a" using c(3) w(2) st'(2) by simp
  moreover have "\<forall>d\<in>set ?a. isDigit d" using c(2) w(3) by simp
  ultimately show ?thesis by blast
qed

lemma nogroup_step:
  assumes "st' \<in> set (rmatch ic r st)" "groups r = {}"
  shows "caps st' = caps st"
  using advances_caps[OF rmatch_sound[OF assms(1)] assms(2)] .

lemma re_arith_caps:
  assumes "m \<in> set (rmatch False (re_arith opr) st)"
  shows "\<exists>a b. a \<noteq> [] \<and> (\<forall>c\<in>set a. isDigit c) \<and> b \<noteq> [] \<and> (\<forall>c\<in>set b. isDigit c)
     \<and> caps m = (2, b) # (1, a) # caps st"
proof -
  from assms have "m \<in> set (rmatch False (Seq (Group 1 (Plus Digit)) (Seq (Star Space)
      (Seq (lit opr) (Seq (Star Space) (Seq (Group 2 (Plus Digit)) Emp))))) st)"
    by (simp only: re_arith_def seqs_Cons seqs_Nil)
  from seq_memD[OF this] obtain s1 where s1: "s1 \<in> set (rmatch False (Group 1 (Plus Digit)) st)"
    "m \<in> set (rmatch False (Seq (Star Space)
      (Seq (lit opr) (Seq (Star Space) (Seq (Group 2 (Plus Digit)) Emp)))) s1)" by blast
  from seq_memD[OF s1(2)] obtain s2 where s2: "s2 \<in> set (rmatch False (Star Space) s1)"
    "m \<in> set (rmatch False (Seq (lit opr) (Seq (Star Space) (Seq (Group 2 (Plus Digit)) Emp))) s2)"
    by blast
  from seq_memD[OF s2(2)] obtain s3 where s3: "s3 \<in> set (rmatch False (lit opr) s2)"
    "m \<in> set (rmatch False (Seq (Star Space) (Seq (Group 2 (Plus Digit)) Emp)) s3)"
    by blast
  from seq_memD[OF s3(2)] obtain s4 where s4: "s4 \<in> set (rmatch False (Star Space) s3)"
    "m \<in> set (rmatch False (Seq (Group 2 (Plus Digit)) Emp) s4)"
    by blast
  from seq_memD[OF s4(2)] obtain s5 where s5: "s5 \<in> set (rmatch False (Group 2 (Plus Digit)) s4)"
    "m \<in> set (rmatch False Emp s5)"
    by blast
  have m: "m = s5" using s5(2) by simp
  from plus_digit_group[OF s1(1)] obtain a where a: "a \<noteq> []" "\<forall>c\<in>set a. isDigit c"
    "caps s1 = (1, a) # caps st" by blast
  have "caps s2 = caps s1" using s2(1) by (rule nogroup_step) simp
  moreover have "caps s3 = caps s2" using s3(1) by (rule nogroup_step) (rule groups_lit)
  moreover have "caps s4 = caps s3" using s4(1) by (rule nogroup_step) simp
  ultimately have c4: "caps s4 = (1, a) # caps st" using a(3) by simp
  from plus_digit_group[OF s5(1)] obtain b where b: "b \<noteq> []" "\<forall>c\<in>set b. isDigit c"
    "caps s5 = (2, b) # caps s4" by blast
  show ?thesis using a(1,2) b c4 m by auto
qed

lemma capsUpTo_2: "capsUpTo cs 2 = [map_of cs 1, map_of cs 2]"
  by (simp add: numeral_2_eq_2)

lemma arith_first_pair:
  assumes "regex_test False (re_arith_test opr) s"
  shows "\<exists>whole a b. regex_match False (re_arith opr) 2 s = Some [Some whole, Some a, Some b]
     \<and> a \<noteq> [] \<and> (\<forall>c\<in>set a. isDigit c) \<and> b \<noteq> [] \<and> (\<forall>c\<in>set b. isDigit c)"
proof -
  have "search False (erase (re_arith opr)) 0 s \<noteq> None"
    using assms unfolding regex_test_def erase_re_arith .
  then have "search False (re_arith opr) 0 s \<noteq> None"
    using search_erase_None[of False "re_arith opr" 0 s] by simp
  then obtain j m where jm: "search False (re_arith opr) 0 s = Some (j, m)" by auto
  from search_Some[OF jm] obtain k where
    k: "m \<in> set (rmatch False (re_arith opr) \<lparr>pos = j, rest = drop k s, caps = []\<rparr>)" by blast
  from re_arith_caps[OF k] obtain a b where ab: "a \<noteq> []" "\<forall>c\<in>set a. isDigit c" "b \<noteq> []"
    "\<forall>c\<in>set b. isDigit c" "caps m = [(2, b), (1, a)]" by auto
  have "regex_match False (re_arith opr) 2 s
      = Some [Some (take (pos m - j) (drop j s)), Some a, Some b]"
    by (simp add: regex_match_def jm capsUpTo_2 ab(5))
  then show ?thesis using ab(1-4) by blast
qed

lemma parseInt_digits:
  assumes "a \<noteq> []" "\<forall>c\<in>set a. isDigit c"
  shows "parseInt a = Some (foldl (\<lambda>acc c. 10 * acc + (c - 0x30)) 0 a)"
proof -
  have tw: "takeWhile isDigit a = a" using assms(2) by (simp add: takeWhile_eq_all_conv)
  show ?thesis unfolding parseInt_def Let_def tw using assms(1) by simp
qed

lemma arithReply_first_pair:
  assumes "regex_test False (re_arith_test opr) s"
  shows "\<exists>whole a b x y. regex_match False (re_arith opr) 2 s = Some [Some whole, Some a, Some b]
     \<and> a \<noteq> [] \<and> (\<forall>c\<in>set a. isDigit c) \<and> b \<noteq> [] \<and> (\<forall>c\<in>set b. isDigit c)
     \<and> parseInt a = Some x \<and> parseInt b = Some y
     \<and> arithReply w opr sign opn s
         = Some (a @ sign @ b @ str '' = '' @ arithString (fpArith w) opn (Some x) (Some y))"
proof -
  from arith_first_pair[OF assms] obtain whole a b where
    m: "regex_match False (re_arith opr) 2 s = Some [Some whole, Some a, Some b]"
    and a: "a \<noteq> []" "\<forall>c\<in>set a. isDigit c" and b: "b \<noteq> []" "\<forall>c\<in>set b. isDigit c"
    by blast
  obtain x y where x: "parseInt a = Some x" and y: "parseInt b = Some y"
    using parseInt_digits[OF a] parseInt_digits[OF b] by blast
  have "arithReply w opr sign opn s
         = Some (a @ sign @ b @ str '' = '' @ arithString (fpArith w) opn (Some x) (Some y))"
    by (simp add: arithReply_def m tmpl_def x y)
  then show ?thesis using m a b x y by blast
qed

lemma arith_message_not_blank:
  assumes "regex_test False (re_arith_test opr) (toLowerCase tbl m)"
  shows "trim m \<noteq> []"
proof
  assume "trim m = []"
  then have sp: "\<forall>c\<in>set m. isSpace c" by (simp add: trim_empty_iff)
  then have low: "toLowerCase tbl m = map lowerUnit m" by (simp add: toLowerCase_plain)
  have "\<forall>c\<in>set (toLowerCase tbl m). \<not> mayConsume False Digit c"
  proof
    fix c assume "c \<in> set (toLowerCase tbl m)"
    then obtain d where "d \<in> set m" "c = lowerUnit d" unfolding low by auto
    then have "isSpace c" using sp isSpace_lowerUnit by blast
    then show "\<not> mayConsume False Digit c" by (simp add: isSpace_not_digit)
  qed
  then have "\<not> regex_test False (re_arith_test opr) (toLowerCase tbl m)"
    by (rule needs_no_test[OF needs_rules(7)])
  then show False using assms by blast
qed

lemma arith_branch:
  assumes "bodyMessage req = JStr message"
    and "regex_test False (re_arith_test opr) (toLowerCase (lowerTable w) message)"
    and "\<And>h. generateResponse cfg w message h
           = (Inr (arithReply w opr sign opn (toLowerCase (lowerTable w) message)), [])"
  shows "\<exists>whole a b x y.
      regex_match False (re_arith opr) 2 (toLowerCase (lowerTable w) message) = Some [Some whole, Some a, Some b]
    \<and> a \<noteq> [] \<and> (\<forall>c\<in>set a. isDigit c) \<and> b \<noteq> [] \<and> (\<forall>c\<in>set b. isDigit c)
    \<and> parseInt a = Some x \<and> parseInt b = Some y
    \<and> sent (chatHandler cfg w store req)
        = Json200 (Some (a @ sign @ b @ str '' = '' @ arithString (fpArith w) opn (Some x) (Some y)))
    \<and> outbound (chatHandler cfg w store req) = []"
proof -
  from arithReply_first_pair[OF assms(2), of w sign opn] obtain whole a b x y where
    m: "regex_match False (re_arith opr) 2 (toLowerCase (lowerTable w) message) = Some [Some whole, Some a, Some b]"
    and d: "a \<noteq> []" "\<forall>c\<in>set a. isDigit c" "b \<noteq> []" "\<forall>c\<in>set b. isDigit c"
    and p: "parseInt a = Some x" "parseInt b = Some y"
    and r: "arithReply w opr sign opn (toLowerCase (lowerTable w) message)
         = Some (a @ sign @ b @ str '' = '' @ arithString (fpArith w) opn (Some x) (Some y))"
    by blast
  have ne: "trim message \<noteq> []" using assms(2) by (rule arith_message_not_blank)
  have g: "generateResponse cfg w message
      (getHistory store (sessionHeader req) @ [\<lparr>role = User, content = Some message\<rparr>])
     = (Inr (Some (a @ sign @ b @ str '' = '' @ arithString (fpArith w) opn (Some x) (Some y))), [])"
    using assms(3) r by simp
  have "sent (chatHandler cfg w store req)
        = Json200 (Some (a @ sign @ b @ str '' = '' @ arithString (fpArith w) opn (Some x) (Some y)))"
    "outbound (chatHandler cfg w store req) = []"
    using chatHandler_eq[OF assms(1) ne g] by simp_all
  then show ?thesis using m d p by blast
qed

lemma safe_sum: "x + y \<le> MAX_SAFE_INTEGER \<Longrightarrow> arithString fp Add (Some x) (Some y) = decimal (x + y)"
  by simp

text \<open>
  Claim C4, as amended. A message whose lower-cased text matches the addition pattern and
  that the rules before the addition rule (the literal 2+2 query, the time query, the date
  query) do not take is answered with status 200 by \<open>a + b = result\<close>, where \<open>a\<close> and
  \<open>b\<close> are the two digit strings captured by the first match of the pattern and the
  result is the decimal sum of their values whenever that sum is at most
  \<^verbatim>\<open>Number.MAX_SAFE_INTEGER\<close>; the provider is not called.
\<close>
theorem addition_rule_reply:
  assumes "bodyMessage req = JStr message"
    and "regex_test False (re_arith_test ''+'') (toLowerCase (lowerTable w) message)"
    and "\<not> regex_test True re_two_plus_two (toLowerCase (lowerTable w) message)"
    and "\<not> regex_test True re_time (toLowerCase (lowerTable w) message)"
    and "\<not> regex_test True re_date (toLowerCase (lowerTable w) message)"
  shows "\<exists>whole a b x y.
      regex_match False (re_arith ''+'') 2 (toLowerCase (lowerTable w) message) = Some [Some whole, Some a, Some b]
    \<and> a \<noteq> [] \<and> (\<forall>c\<in>set a. isDigit c) \<and> b \<noteq> [] \<and> (\<forall>c\<in>set b. isDigit c)
    \<and> parseInt a = Some x \<and> parseInt b = Some y
    \<and> sent (chatHandler cfg w store req)
        = Json200 (Some (a @ str '' + '' @ b @ str '' = '' @ arithString (fpArith w) Add (Some x) (Some y)))
    \<and> (x + y \<le> MAX_SAFE_INTEGER \<longrightarrow> arithString (fpArith w) Add (Some x) (Some y) = decimal (x + y))
    \<and> outbound (chatHandler cfg w store req) = []"
proof -
  have g: "generateResponse cfg w message h
           = (Inr (arithReply w ''+'' (str '' + '') Add (toLowerCase (lowerTable w) message)), [])" for h
    using assms(2-5) by (simp add: generateResponse_def Let_def)
  from arith_branch[OF assms(1,2) g, of store] obtain whole a b x y where
    "regex_match False (re_arith ''+'') 2 (toLowerCase (lowerTable w) message) = Some [Some whole, Some a, Some b]"
    "a \<noteq> []" "\<forall>c\<in>set a. isDigit c" "b \<noteq> []" "\<forall>c\<in>set b. isDigit c"
    "parseInt a = Some x" "parseInt b = Some y"
    "sent (chatHandler cfg w store req)
        = Json200 (Some (a @ str '' + '' @ b @ str '' = '' @ arithString (fpArith w) Add (Some x) (Some y)))"
    "outbound (chatHandler cfg w store req) = []"
    by blast
  moreover have "x + y \<le> MAX_SAFE_INTEGER \<longrightarrow> arithString (fpArith w) Add (Some x) (Some y) = decimal (x + y)"
    by (simp add: safe_sum)
  ultimately show ?thesis by blast
qed

lemma example_no_special_rule:
  "\<not> regex_test True re_two_plus_two (toLowerCase tbl (str ''Add 12 + 7 then 3 + 4''))"
  "\<not> regex_test True re_time (toLowerCase tbl (str ''Add 12 + 7 then 3 + 4''))"
  "\<not> regex_test True re_date (toLowerCase tbl (str ''Add 12 + 7 then 3 + 4''))"
  by (simp_all add: re_two_plus_two_def re_time_def re_date_def regex_eval)

lemma example_addition_test:
  "regex_test False (re_arith_test ''+'') (toLowerCase tbl (str ''Add 12 + 7 then 3 + 4''))"
  by (simp add: re_arith_test_def regex_eval)

lemma example_addition_match:
  "regex_match False (re_arith ''+'') 2 (toLowerCase tbl (str ''Add 12 + 7 then 3 + 4''))
    = Some [Some (str ''12 + 7''), Some (str ''12''), Some (str ''7'')]"
  by (simp add: re_arith_def regex_eval capsUpTo_2)

theorem addition_rule_reply_witness:
  "sent (chatHandler exampleConfig exampleWorld Map.empty
      \<lparr>sessionHeader = None, bodyMessage = JStr (str ''Add 12 + 7 then 3 + 4'')\<rparr>)
    = Json200 (Some (str ''12 + 7 = 19''))"
proof -
  let ?req = "\<lparr>sessionHeader = None, bodyMessage = JStr (str ''Add 12 + 7 then 3 + 4'')\<rparr>"
  have b: "bodyMessage ?req = JStr (str ''Add 12 + 7 then 3 + 4'')" by simp
  from addition_rule_reply[where cfg = exampleConfig and w = exampleWorld and store = Map.empty,
      OF b example_addition_test example_no_special_rule]
  obtain whole a b x y where
    m: "regex_match False (re_arith ''+'') 2 (toLowerCase (lowerTable exampleWorld) (str ''Add 12 + 7 then 3 + 4''))
         = Some [Some whole, Some a, Some b]"
    and p: "parseInt a = Some x" "parseInt b = Some y"
    and s: "sent (chatHandler exampleConfig exampleWorld Map.empty ?req)
        = Json200 (Some (a @ str '' + '' @ b @ str '' = ''
            @ arithString (fpArith exampleWorld) Add (Some x) (Some y)))"
    by blast
  from m have ab: "a = str ''12''" "b = str ''7''"
    unfolding example_addition_match by simp_all
  from p have xy: "x = 12" "y = 7"
    unfolding ab by (simp_all add: parseInt_def str_def isDigit_def)
  have "arithString (fpArith exampleWorld) Add (Some 12) (Some 7) = str ''19''"
    by (simp add: MAX_SAFE_INTEGER_def decimal.simps str_def)
  then show ?thesis unfolding s ab xy by (simp add: str_def)
qed

theorem addition_rule_counterexample:
  "regex_test False (re_arith_test ''+'') (toLowerCase (lowerTable exampleWorld) (str ''what time is 1+1''))
   \<and> sent (chatHandler exampleConfig exampleWorld Map.empty
      \<lparr>sessionHeader = None, bodyMessage = JStr (str ''what time is 1+1'')\<rparr>)
    = Json200 (Some (str ''The current time is 10:15:00 AM.''))"
proof -
  have t: "regex_test False (re_arith_test ''+'') (toLowerCase (lowerTable exampleWorld) (str ''what time is 1+1''))"
    by (simp add: re_arith_test_def regex_eval)
  have g: "generateResponse exampleConfig exampleWorld (str ''what time is 1+1'') h
     = (Inr (Some (str ''The current time is 10:15:00 AM.'')), [])" for h
    by (simp add: generateResponse_def re_two_plus_two_def re_time_def regex_eval exampleWorld_def)
  have ne: "trim (str ''what time is 1+1'') \<noteq> []" by (simp add: regex_eval)
  have b: "bodyMessage \<lparr>sessionHeader = None, bodyMessage = JStr (str ''what time is 1+1'')\<rparr>
     = JStr (str ''what time is 1+1'')" by simp
  show ?thesis using t chatHandler_eq[OF b ne g] by simp
qed

text \<open>
  Claim C6. A message that reaches the subtraction, multiplication or division rule (no
  earlier rule takes it and its lower-cased text matches the pattern of the rule) is
  answered with status 200 by the first captured digit string, the operator sign, the
  second captured digit string, \<open>=\<close> and the result of the operation on their values;
  the captures are those of the first match of the pattern. The result is exact in the
  range of safe integers; division has no guard, and a zero divisor gives \<^verbatim>\<open>NaN\<close> for a
  zero dividend and \<^verbatim>\<open>Infinity\<close> otherwise. The provider is not called.
\<close>
theorem other_arithmetic_rules_reply:
  assumes "bodyMessage req = JStr message"
    and "\<not> regex_test True re_two_plus_two (toLowerCase (lowerTable w) message)"
    and "\<not> regex_test True re_time (toLowerCase (lowerTable w) message)"
    and "\<not> regex_test True re_date (toLowerCase (lowerTable w) message)"
    and "\<not> regex_test False (re_arith_test ''+'') (toLowerCase (lowerTable w) message)"
  shows
    "(regex_test False (re_arith_test ''-'') (toLowerCase (lowerTable w) message) \<longrightarrow>
       (\<exists>whole a b x y.
          regex_match False (re_arith ''-'') 2 (toLowerCase (lowerTable w) message) = Some [Some whole, Some a, Some b]
        \<and> a \<noteq> [] \<and> (\<forall>c\<in>set a. isDigit c) \<and> b \<noteq> [] \<and> (\<forall>c\<in>set b. isDigit c)
        \<and> parseInt a = Some x \<and> parseInt b = Some y
        \<and> sent (chatHandler cfg w store req)
            = Json200 (Some (a @ str '' - '' @ b @ str '' = ''
                @ arithString (fpArith w) Sub (Some x) (Some y)))
        \<and> (x \<le> MAX_SAFE_INTEGER \<and> y \<le> MAX_SAFE_INTEGER \<longrightarrow>
             arithString (fpArith w) Sub (Some x) (Some y)
               = (if y \<le> x then decimal (x - y) else str ''-'' @ decimal (y - x)))
        \<and> outbound (chatHandler cfg w store req) = []))
   \<and> (\<not> regex_test False (re_arith_test ''-'') (toLowerCase (lowerTable w) message)
        \<and> regex_test False (re_arith_test ''*'') (toLowerCase (lowerTable w) message) \<longrightarrow>
       (\<exists>whole a b x y.
          regex_match False (re_arith ''*'') 2 (toLowerCase (lowerTable w) message) = Some [Some whole, Some a, Some b]
        \<and> a \<noteq> [] \<and> (\<forall>c\<in>set a. isDigit c) \<and> b \<noteq> [] \<and> (\<forall>c\<in>set b. isDigit c)
        \<and> parseInt a = Some x \<and> parseInt b = Some y
        \<and> sent (chatHandler cfg w store req)
            = Json200 (Some (a @ (str '' '' @ [0x00D7] @ str '' '') @ b @ str '' = ''
                @ arithString (fpArith w) Mul (Some x) (Some y)))
        \<and> (x * y \<le> MAX_SAFE_INTEGER \<and> x \<le> MAX_SAFE_INTEGER \<and> y \<le> MAX_SAFE_INTEGER \<longrightarrow>
             arithString (fpArith w) Mul (Some x) (Some y) = decimal (x * y))
        \<and> outbound (chatHandler cfg w store req) = []))
   \<and> (\<not> regex_test False (re_arith_test ''-'') (toLowerCase (lowerTable w) message)
        \<and> \<not> regex_test False (re_arith_test ''*'') (toLowerCase (lowerTable w) message)
        \<and> regex_test False (re_arith_test ''/'') (toLowerCase (lowerTable w) message) \<longrightarrow>
       (\<exists>whole a b x y.
          regex_match False (re_arith ''/'') 2 (toLowerCase (lowerTable w) message) = Some [Some whole, Some a, Some b]
        \<and> a \<noteq> [] \<and> (\<forall>c\<in>set a. isDigit c) \<and> b \<noteq> [] \<and> (\<forall>c\<in>set b. isDigit c)
        \<and> parseInt a = Some x \<and> parseInt b = Some y
        \<and> sent (chatHandler cfg w store req)
            = Json200 (Some (a @ (str '' '' @ [0x00F7] @ str '' '') @ b @ str '' = ''
                @ arithString (fpArith w) Div (Some x) (Some y)))
        \<and> (y = 0 \<longrightarrow> arithString (fpArith w) Div (Some x) (Some y)
                         = (if x = 0 then str ''NaN'' else str ''Infinity''))
        \<and> (y \<noteq> 0 \<and> y dvd x \<and> x \<le> MAX_SAFE_INTEGER \<and> y \<le> MAX_SAFE_INTEGER \<longrightarrow>
             arithString (fpArith w) Div (Some x) (Some y) = decimal (x div y))
        \<and> outbound (chatHandler cfg w store req) = []))"
proof (intro conjI impI)
  assume t: "regex_test False (re_arith_test ''-'') (toLowerCase (lowerTable w) message)"
  have g: "generateResponse cfg w message h
           = (Inr (arithReply w ''-'' (str '' - '') Sub (toLowerCase (lowerTable w) message)), [])" for h
    using assms(2-5) t by (simp add: generateResponse_def Let_def)
  from arith_branch[OF assms(1) t g, of store] obtain whole a b x y where
    "regex_match False (re_arith ''-'') 2 (toLowerCase (lowerTable w) message) = Some [Some whole, Some a, Some b]"
    "a \<noteq> []" "\<forall>c\<in>set a. isDigit c" "b \<noteq> []" "\<forall>c\<in>set b. isDigit c"
    "parseInt a = Some x" "parseInt b = Some y"
    "sent (chatHandler cfg w store req)
        = Json200 (Some (a @ str '' - '' @ b @ str '' = '' @ arithString (fpArith w) Sub (Some x) (Some y)))"
    "outbound (chatHandler cfg w store req) = []"
    by blast
  moreover have "x \<le> MAX_SAFE_INTEGER \<and> y \<le> MAX_SAFE_INTEGER \<longrightarrow>
             arithString (fpArith w) Sub (Some x) (Some y)
               = (if y \<le> x then decimal (x - y) else str ''-'' @ decimal (y - x))"
    by simp
  ultimately show "\<exists>whole a b x y.
          regex_match False (re_arith ''-'') 2 (toLowerCase (lowerTable w) message) = Some [Some whole, Some a, Some b]
        \<and> a \<noteq> [] \<and> (\<forall>c\<in>set a. isDigit c) \<and> b \<noteq> [] \<and> (\<forall>c\<in>set b. isDigit c)
        \<and> parseInt a = Some x \<and> parseInt b = Some y
        \<and> sent (chatHandler cfg w store req)
            = Json200 (Some (a @ str '' - '' @ b @ str '' = ''
                @ arithString (fpArith w) Sub (Some x) (Some y)))
        \<and> (x \<le> MAX_SAFE_INTEGER \<and> y \<le> MAX_SAFE_INTEGER \<longrightarrow>
             arithString (fpArith w) Sub (Some x) (Some y)
               = (if y \<le> x then decimal (x - y) else str ''-'' @ decimal (y - x)))
        \<and> outbound (chatHandler cfg w store req) = []"
    by blast
next
  assume t0: "\<not> regex_test False (re_arith_test ''-'') (toLowerCase (lowerTable w) message)
        \<and> regex_test False (re_arith_test ''*'') (toLowerCase (lowerTable w) message)"
  then have t: "regex_test False (re_arith_test ''*'') (toLowerCase (lowerTable w) message)" by blast
  have g: "generateResponse cfg w message h
           = (Inr (arithReply w ''*'' (str '' '' @ [0x00D7] @ str '' '') Mul (toLowerCase (lowerTable w) message)), [])"
    for h
    using assms(2-5) t0 by (simp add: generateResponse_def Let_def)
  from arith_branch[OF assms(1) t g, of store] obtain whole a b x y where
    "regex_match False (re_arith ''*'') 2 (toLowerCase (lowerTable w) message) = Some [Some whole, Some a, Some b]"
    "a \<noteq> []" "\<forall>c\<in>set a. isDigit c" "b \<noteq> []" "\<forall>c\<in>set b. isDigit c"
    "parseInt a = Some x" "parseInt b = Some y"
    "sent (chatHandler cfg w store req)
        = Json200 (Some (a @ (str '' '' @ [0x00D7] @ str '' '') @ b @ str '' = ''
            @ arithString (fpArith w) Mul (Some x) (Some y)))"
    "outbound (chatHandler cfg w store req) = []"
    by blast
  moreover have "x * y \<le> MAX_SAFE_INTEGER \<and> x \<le> MAX_SAFE_INTEGER \<and> y \<le> MAX_SAFE_INTEGER \<longrightarrow>
             arithString (fpArith w) Mul (Some x) (Some y) = decimal (x * y)"
    by simp
  ultimately show "\<exists>whole a b x y.
          regex_match False (re_arith ''*'') 2 (toLowerCase (lowerTable w) message) = Some [Some whole, Some a, Some b]
        \<and> a \<noteq> [] \<and> (\<forall>c\<in>set a. isDigit c) \<and> b \<noteq> [] \<and> (\<forall>c\<in>set b. isDigit c)
        \<and> parseInt a = Some x \<and> parseInt b = Some y
        \<and> sent (chatHandler cfg w store req)
            = Json200 (Some (a @ (str '' '' @ [0x00D7] @ str '' '') @ b @ str '' = ''
                @ arithString (fpArith w) Mul (Some x) (Some y)))
        \<and> (x * y \<le> MAX_SAFE_INTEGER \<and> x \<le> MAX_SAFE_INTEGER \<and> y \<le> MAX_SAFE_INTEGER \<longrightarrow>
             arithString (fpArith w) Mul (Some x) (Some y) = decimal (x * y))
        \<and> outbound (chatHandler cfg w store req) = []"
    by blast
next
  assume t0: "\<not> regex_test False (re_arith_test ''-'') (toLowerCase (lowerTable w) message)
        \<and> \<not> regex_test False (re_arith_test ''*'') (toLowerCase (lowerTable w) message)
        \<and> regex_test False (re_arith_test ''/'') (toLowerCase (lowerTable w) message)"
  then have t: "regex_test False (re_arith_test ''/'') (toLowerCase (lowerTable w) message)" by blast
  have g: "generateResponse cfg w message h
           = (Inr (arithReply w ''/'' (str '' '' @ [0x00F7] @ str '' '') Div (toLowerCase (lowerTable w) message)), [])"
    for h
    using assms(2-5) t0 by (simp add: generateResponse_def Let_def)
  from arith_branch[OF assms(1) t g, of store] obtain whole a b x y where
    "regex_match False (re_arith ''/'') 2 (toLowerCase (lowerTable w) message) = Some [Some whole, Some a, Some b]"
    "a \<noteq> []" "\<forall>c\<in>set a. isDigit c" "b \<noteq> []" "\<forall>c\<in>set b. isDigit c"
    "parseInt a = Some x" "parseInt b = Some y"
    "sent (chatHandler cfg w store req)
        = Json200 (Some (a @ (str '' '' @ [0x00F7] @ str '' '') @ b @ str '' = ''
            @ arithString (fpArith w) Div (Some x) (Some y)))"
    "outbound (chatHandler cfg w store req) = []"
    by blast
  moreover have "y = 0 \<longrightarrow> arithString (fpArith w) Div (Some x) (Some y)
                         = (if x = 0 then str ''NaN'' else str ''Infinity'')"
    by simp
  moreover have "y \<noteq> 0 \<and> y dvd x \<and> x \<le> MAX_SAFE_INTEGER \<and> y \<le> MAX_SAFE_INTEGER \<longrightarrow>
             arithString (fpArith w) Div (Some x) (Some y) = decimal (x div y)"
    by simp
  ultimately show "\<exists>whole a b x y.
          regex_match False (re_arith ''/'') 2 (toLowerCase (lowerTable w) message) = Some [Some whole, Some a, Some b]
        \<and> a \<noteq> [] \<and> (\<forall>c\<in>set a. isDigit c) \<and> b \<noteq> [] \<and> (\<forall>c\<in>set b. isDigit c)
        \<and> parseInt a = Some x \<and> parseInt b = Some y
        \<and> sent (chatHandler cfg w store req)
            = Json200 (Some (a @ (str '' '' @ [0x00F7] @ str '' '') @ b @ str '' = ''
                @ arithString (fpArith w) Div (Some x) (Some y)))
        \<and> (y = 0 \<longrightarrow> arithString (fpArith w) Div (Some x) (Some y)
                         = (if x = 0 then str ''NaN'' else str ''Infinity''))
        \<and> (y \<noteq> 0 \<and> y dvd x \<and> x \<le> MAX_SAFE_INTEGER \<and> y \<le> MAX_SAFE_INTEGER \<longrightarrow>
             arithString (fpArith w) Div (Some x) (Some y) = decimal (x div y))
        \<and> outbound (chatHandler cfg w store req) = []"
    by blast
qed

lemma example_division_tests:
  "\<not> regex_test True re_two_plus_two (toLowerCase tbl (str ''5 / 0''))"
  "\<not> regex_test True re_time (toLowerCase tbl (str ''5 / 0''))"
  "\<not> regex_test True re_date (toLowerCase tbl (str ''5 / 0''))"
  "\<not> regex_test False (re_arith_test ''+'') (toLowerCase tbl (str ''5 / 0''))"
  "\<not> regex_test False (re_arith_test ''-'') (toLowerCase tbl (str ''5 / 0''))
   \<and> \<not> regex_test False (re_arith_test ''*'') (toLowerCase tbl (str ''5 / 0''))
   \<and> regex_test False (re_arith_test ''/'') (toLowerCase tbl (str ''5 / 0''))"
  by (simp_all add: re_two_plus_two_def re_time_def re_date_def re_arith_test_def regex_eval)

lemma example_division_match:
  "regex_match False (re_arith ''/'') 2 (toLowerCase tbl (str ''5 / 0''))
    = Some [Some (str ''5 / 0''), Some (str ''5''), Some (str ''0'')]"
  by (simp add: re_arith_def regex_eval capsUpTo_2)

theorem other_arithmetic_rules_reply_witness:
  "sent (chatHandler exampleConfig exampleWorld Map.empty
      \<lparr>sessionHeader = None, bodyMessage = JStr (str ''5 / 0'')\<rparr>)
    = Json200 (Some (str ''5 '' @ [0x00F7] @ str '' 0 = Infinity''))"
proof -
  let ?req = "\<lparr>sessionHeader = None, bodyMessage = JStr (str ''5 / 0'')\<rparr>"
  have b: "bodyMessage ?req = JStr (str ''5 / 0'')" by simp
  note all = other_arithmetic_rules_reply[where cfg = exampleConfig and w = exampleWorld
      and store = Map.empty, OF b example_division_tests(1-4)]
  from all[THEN conjunct2, THEN conjunct2, THEN mp, OF example_division_tests(5)]
  obtain whole a b x y where
    m: "regex_match False (re_arith ''/'') 2 (toLowerCase (lowerTable exampleWorld) (str ''5 / 0''))
         = Some [Some whole, Some a, Some b]"
    and p: "parseInt a = Some x" "parseInt b = Some y"
    and s: "sent (chatHandler exampleConfig exampleWorld Map.empty ?req)
        = Json200 (Some (a @ (str '' '' @ [0x00F7] @ str '' '') @ b @ str '' = ''
            @ arithString (fpArith exampleWorld) Div (Some x) (Some y)))"
    by blast
  from m have ab: "a = str ''5''" "b = str ''0''"
    unfolding example_division_match by simp_all
  from p have xy: "x = 5" "y = 0"
    unfolding ab by (simp_all add: parseInt_def str_def isDigit_def)
  show ?thesis unfolding s ab xy by (simp add: str_def)
qed

end
